theory Spec2Isabelle
  imports Complex_Main "HOL-Library.Sublist"
begin

section \<open>Python strings\<close>

text \<open>
  A Python \<open>str\<close> is a sequence of Unicode code points; \<open>len\<close> counts code points.
  The literals of the source are ASCII (or given by their code points) and are embedded
  with \<open>py\<close>.
\<close>

type_synonym codepoint = nat
type_synonym pystr = "codepoint list"

definition py :: "string \<Rightarrow> pystr" where
  "py s = map of_char s"

text \<open>
  \<open>str.isspace\<close> on one character, the set \<open>str.split()\<close> and \<open>str.strip()\<close> use:
  the code points U+0009..U+000D, U+001C..U+0020, U+0085, U+00A0, U+1680, U+2000..U+200A,
  U+2028, U+2029, U+202F, U+205F and U+3000. The null character U+0000 is not among them,
  the carriage return U+000D is.
\<close>

definition isspace :: "codepoint \<Rightarrow> bool" where
  "isspace c \<longleftrightarrow>
     (0x09 \<le> c \<and> c \<le> 0x0D) \<or> (0x1C \<le> c \<and> c \<le> 0x20) \<or> c = 0x85 \<or> c = 0xA0 \<or>
     c = 0x1680 \<or> (0x2000 \<le> c \<and> c \<le> 0x200A) \<or> c = 0x2028 \<or> c = 0x2029 \<or>
     c = 0x202F \<or> c = 0x205F \<or> c = 0x3000"

text \<open>\<open>text.strip()\<close>: leading and trailing whitespace removed.\<close>

definition py_strip :: "pystr \<Rightarrow> pystr" where
  "py_strip s = rev (dropWhile isspace (rev (dropWhile isspace s)))"

text \<open>
  \<open>text.split()\<close> with no separator: the maximal runs of non-whitespace characters, in
  order; \<open>split_from w cs\<close> scans \<open>cs\<close> with the word \<open>w\<close> collected so far.
\<close>

fun split_from :: "pystr \<Rightarrow> pystr \<Rightarrow> pystr list" where
  "split_from w [] = (if w = [] then [] else [w])"
| "split_from w (c # cs) =
     (if isspace c then (if w = [] then split_from [] cs else w # split_from [] cs)
      else split_from (w @ [c]) cs)"

definition py_split :: "pystr \<Rightarrow> pystr list" where
  "py_split s = split_from [] s"

text \<open>\<open>sep.join(ws)\<close>.\<close>

fun py_join :: "pystr \<Rightarrow> pystr list \<Rightarrow> pystr" where
  "py_join sep [] = []"
| "py_join sep [w] = w"
| "py_join sep (w # v # ws) = w @ sep @ py_join sep (v # ws)"

text \<open>\<open>text.replace(c, '')\<close> for a one-character \<open>c\<close>: every occurrence is deleted.\<close>

definition py_remove :: "codepoint \<Rightarrow> pystr \<Rightarrow> pystr" where
  "py_remove c s = filter (\<lambda>x. x \<noteq> c) s"

text \<open>\<open>x in s\<close> for strings: \<open>x\<close> occurs in \<open>s\<close> as a contiguous substring.\<close>

fun py_in :: "pystr \<Rightarrow> pystr \<Rightarrow> bool" where
  "py_in x [] = (x = [])"
| "py_in x (c # cs) = (prefix x (c # cs) \<or> py_in x cs)"

text \<open>
  \<open>s.lower()\<close> on the ASCII letters. Python also maps the non-ASCII upper-case letters
  to their lower-case forms; none of those forms contains one of the letters
  \<open>s\<close>, \<open>p\<close>, \<open>a\<close>, \<open>m\<close>, so the test \<open>"spam" in str(e).lower()\<close>, the only use of
  \<open>lower\<close> in the queue, is decided by the ASCII letters alone.
\<close>

definition py_lower :: "pystr \<Rightarrow> pystr" where
  "py_lower s = map (\<lambda>c. if 0x41 \<le> c \<and> c \<le> 0x5A then c + 0x20 else c) s"




section \<open>Message validation\<close>

definition max_message_length :: nat where
  "max_message_length = 144"

text \<open>
  \<open>validate_message\<close> (main.py, lines 109 to 125). It reads nothing but its argument
  and the constant \<open>_max_message_length\<close>, and changes nothing.
\<close>

definition validate_message :: "pystr \<Rightarrow> bool \<times> pystr" where
  "validate_message text =
     (if text = [] \<or> py_strip text = [] then (False, py ''Empty message'')
      else
        let text1 = py_join (py '' '') (py_split text);
            text2 = (if length text1 > max_message_length
                     then take (max_message_length - 3) text1 @ py ''...''
                     else text1);
            text3 = py_remove 0x00 text2;
            text4 = py_remove 0x0D text3
        in (True, text4))"


section \<open>Exceptions, the clock and the collaborators\<close>

text \<open>
  A call that may raise: \<open>Raise e\<close> is a Python \<open>Exception\<close> whose \<open>str\<close> is \<open>e\<close>,
  the only thing the handlers of the source read from it. Timestamps are the values of
  \<open>time.time()\<close>, in seconds, taken as real numbers.
\<close>

datatype 'a raises = Raise pystr | Return 'a

text \<open>The behaviour of \<open>osc_client.send_chat_message(text)\<close>.\<close>

type_synonym osc_client = "pystr \<Rightarrow> unit raises"

text \<open>
  \<open>VRChatOSCClient.send_chat_message\<close> (src/integrations/vrchat.py, lines 161 to 167),
  over the behaviour of \<open>print\<close> on the text it is given and of
  \<open>self.client.send_message("/chatbox/input", [message, True])\<close>. The \<open>try\<close> body
  sends and prints the success line (whose first four characters are U+00F0, U+0178,
  U+2019 and U+00AC in the source); the handler prints the diagnostic and returns. An
  exception of the handler's own \<open>print\<close> leaves the function.
\<close>

definition send_chat_message ::
    "(pystr \<Rightarrow> unit raises) \<Rightarrow> (pystr \<Rightarrow> unit raises) \<Rightarrow> osc_client" where
  "send_chat_message console client_send_message message =
     (case (case client_send_message message of
              Raise e \<Rightarrow> Raise e
            | Return u \<Rightarrow>
                console ([0xF0, 0x178, 0x2019, 0xAC] @ py '' Sent to VR Chat chat: '' @ message)) of
        Return u \<Rightarrow> Return ()
      | Raise e \<Rightarrow> console (py ''Error sending chat message: '' @ e))"

text \<open>
  What one call into the application reads from outside:
  the outcome of the attribute lookup \<open>self.vrchat_integration.osc_client\<close> (the client,
  or the exception of a failed lookup), the clock at the three places that read it, and
  the user-interface collaborators of the status animation.
\<close>

record env =
  osc_lookup :: "osc_client raises"
  t_enqueue :: real
  t_drain :: real
  t_send :: real
  send_time :: "pystr option"
  window_info :: "pystr option"
  widget_error :: "pystr option"
  vrchat_enabled :: bool
  isupper :: "codepoint \<Rightarrow> bool"

text \<open>
  \<open>t_enqueue\<close> is \<open>time.time()\<close> at main.py line 145, \<open>t_drain\<close> at line 162 and
  \<open>t_send\<close> at line 196 or 202. \<open>send_time\<close> is \<open>None\<close> when the time display is off
  and the formatted wall-clock time otherwise; \<open>window_info\<close> is \<open>None\<close> when the
  window-info box is off and the result of \<open>get_active_window_info()\<close> otherwise;
  \<open>widget_error\<close> is the exception of \<open>self.status_text.configure\<close>, if it raises;
  \<open>isupper\<close> is \<open>str.isupper\<close> on one character.
\<close>


section \<open>Application state\<close>

record message_data =
  msg_text :: pystr
  msg_type :: pystr
  msg_timestamp :: real

text \<open>The callbacks handed to \<open>self.root.after\<close>.\<close>

datatype callback = ProcessMessageQueue | AnimateMusicStatus | ResumeMusicAnimation

text \<open>
  The fields of \<open>VTAuderApp\<close> the queue and the music animation use. \<open>after_pending\<close>
  is the timer table of the event loop (identifier, delay in milliseconds, callback) and
  \<open>after_next_id\<close> its next identifier; \<open>osc_calls\<close> lists the texts handed to
  \<open>osc_client.send_chat_message\<close>, in call order; \<open>chat_log\<close> lists the lines appended
  to the chat-log widget. An attribute read with \<open>getattr(self, name, default)\<close> holds
  its default until first assigned.
\<close>

record app =
  message_queue :: "message_data list"
  queue_processing :: bool
  last_chatbox_sent :: real
  chatbox_timeout :: bool
  chatbox_timeout_until :: real
  chat_log :: "pystr list"
  osc_calls :: "pystr list"
  after_pending :: "(nat \<times> int \<times> callback) list"
  after_next_id :: nat
  started :: bool
  music_anim_running :: bool
  music_anim_index :: nat
  music_anim_title :: pystr
  music_anim_artist :: pystr
  music_anim_after_id :: "nat option"
  stt_chat_buffer :: "pystr option"

definition max_queue_size :: nat where
  "max_queue_size = 10"

definition min_interval :: real where
  "min_interval = 1.5"

definition init_app :: app where
  "init_app = \<lparr> message_queue = [], queue_processing = False, last_chatbox_sent = 0,
     chatbox_timeout = False, chatbox_timeout_until = 0, chat_log = [], osc_calls = [],
     after_pending = [], after_next_id = 0, started = False, music_anim_running = False,
     music_anim_index = 0, music_anim_title = [], music_anim_artist = [],
     music_anim_after_id = None, stt_chat_buffer = None \<rparr>"

text \<open>\<open>self.root.after(ms, cb)\<close> and \<open>self.root.after_cancel(id)\<close>.\<close>

definition root_after :: "int \<Rightarrow> callback \<Rightarrow> app \<Rightarrow> nat \<times> app" where
  "root_after ms cb s =
     (after_next_id s,
      s\<lparr>after_pending := after_pending s @ [(after_next_id s, ms, cb)],
        after_next_id := Suc (after_next_id s)\<rparr>)"

definition root_after_cancel :: "nat \<Rightarrow> app \<Rightarrow> app" where
  "root_after_cancel i s = s\<lparr>after_pending := filter (\<lambda>(j, ms, cb). j \<noteq> i) (after_pending s)\<rparr>"

text \<open>\<open>int(x)\<close> on a float: truncation towards zero.\<close>

definition py_int :: "real \<Rightarrow> int" where
  "py_int x = (if 0 \<le> x then \<lfloor>x\<rfloor> else \<lceil>x\<rceil>)"

text \<open>
  \<open>s.title()\<close> on the ASCII letters, which is what the message types of this program
  (\<open>general\<close>, \<open>manual\<close>, \<open>stt\<close>, \<open>gesture\<close>, \<open>music\<close>, \<open>dvd\<close>) consist of:
  a letter is upper-cased after a non-letter and lower-cased after a letter.
\<close>

fun title_from :: "bool \<Rightarrow> pystr \<Rightarrow> pystr" where
  "title_from prev [] = []"
| "title_from prev (c # cs) =
     (if 0x41 \<le> c \<and> c \<le> 0x5A then (if prev then c + 0x20 else c) # title_from True cs
      else if 0x61 \<le> c \<and> c \<le> 0x7A then (if prev then c else c - 0x20) # title_from True cs
      else c # title_from False cs)"

definition py_title :: "pystr \<Rightarrow> pystr" where
  "py_title s = title_from False s"

definition append_chat_log :: "pystr \<Rightarrow> app \<Rightarrow> app" where
  "append_chat_log line s = s\<lparr>chat_log := chat_log s @ [line]\<rparr>"


section \<open>The outbound message queue\<close>

text \<open>
  \<open>_send_message_direct\<close> (main.py, lines 189 to 205). The \<open>try\<close> body looks the client
  up and calls it; on a normal return the clock is stored in \<open>_last_chatbox_sent\<close>; the
  handler tests the diagnostic for the spam pattern. The console output of main.py is
  taken to succeed.
\<close>

definition is_spam_diagnostic :: "pystr \<Rightarrow> bool" where
  "is_spam_diagnostic d \<longleftrightarrow> py_in (py ''Timed out for spam'') d \<or> py_in (py ''spam'') (py_lower d)"

definition send_message_direct :: "env \<Rightarrow> pystr \<Rightarrow> app \<Rightarrow> bool \<times> app" where
  "send_message_direct e txt s =
     (let (outcome, s1) =
            (case osc_lookup e of
               Raise d \<Rightarrow> (Raise d, s)
             | Return osc_client \<Rightarrow> (osc_client txt, s\<lparr>osc_calls := osc_calls s @ [txt]\<rparr>))
      in case outcome of
           Return u \<Rightarrow> (True, s1\<lparr>last_chatbox_sent := t_send e\<rparr>)
         | Raise d \<Rightarrow>
             (False,
              if is_spam_diagnostic d
              then s1\<lparr>chatbox_timeout := True, chatbox_timeout_until := t_send e + 30\<rparr>
              else s1))"

text \<open>
  \<open>_process_message_queue\<close> (main.py, lines 155 to 187), returning also the path taken:
  the entry guard, the rescheduling branch, the send branch, or the final \<open>else\<close>.
\<close>

datatype drain_path = Guard_Return | Rescheduled | Sent_Next | Else_Branch

definition process_message_queue_path :: "env \<Rightarrow> app \<Rightarrow> drain_path \<times> app" where
  "process_message_queue_path e s =
     (if queue_processing s \<or> message_queue s = [] then (Guard_Return, s)
      else
        let s1 = s\<lparr>queue_processing := True\<rparr>;
            now = t_drain e
        in
        if (chatbox_timeout s1 \<and> now < chatbox_timeout_until s1) \<or>
           (now - last_chatbox_sent s1 < min_interval)
        then
          let time_until_ready =
                max (if chatbox_timeout s1 then chatbox_timeout_until s1 - now else 0)
                    (min_interval - (now - last_chatbox_sent s1));
              s2 = snd (root_after (py_int (time_until_ready * 1000)) ProcessMessageQueue s1)
          in (Rescheduled, s2\<lparr>queue_processing := False\<rparr>)
        else
          (case message_queue s1 of
             message_data # rest \<Rightarrow>
               let s2 = s1\<lparr>message_queue := rest\<rparr>;
                   (success, s3) = send_message_direct e (msg_text message_data) s2;
                   s4 = (if success
                         then append_chat_log
                                (py_title (msg_type message_data) @ py '': '' @ msg_text message_data) s3
                         else s3)
               in (Sent_Next, snd (root_after (py_int (min_interval * 1000)) ProcessMessageQueue s4))
           | [] \<Rightarrow> (Else_Branch, s1\<lparr>queue_processing := False\<rparr>)))"

definition process_message_queue :: "env \<Rightarrow> app \<Rightarrow> app" where
  "process_message_queue e s = snd (process_message_queue_path e s)"

text \<open>\<open>add_message_to_queue\<close> (main.py, lines 127 to 153).\<close>

definition add_message_to_queue :: "env \<Rightarrow> pystr \<Rightarrow> pystr \<Rightarrow> app \<Rightarrow> bool \<times> app" where
  "add_message_to_queue e txt message_type s =
     (case validate_message txt of
        (False, sanitized_text) \<Rightarrow> (False, s)
      | (True, sanitized_text) \<Rightarrow>
          let s1 = (if length (message_queue s) \<ge> max_queue_size
                    then s\<lparr>message_queue := tl (message_queue s)\<rparr>
                    else s);
              message_data = \<lparr>msg_text = sanitized_text, msg_type = message_type,
                               msg_timestamp = t_enqueue e\<rparr>;
              s2 = s1\<lparr>message_queue := message_queue s1 @ [message_data]\<rparr>;
              s3 = (if \<not> queue_processing s2 then process_message_queue e s2 else s2)
          in (True, s3))"

text \<open>\<open>send_chatbox_message\<close> (main.py, lines 207 to 209).\<close>

definition send_chatbox_message :: "env \<Rightarrow> pystr \<Rightarrow> pystr \<Rightarrow> app \<Rightarrow> bool \<times> app" where
  "send_chatbox_message e txt message_type s = add_message_to_queue e txt message_type s"



section \<open>The music status animation\<close>

text \<open>\<open>MUSIC_ASCII_ANIMATION\<close>, fourteen code points.\<close>

definition MUSIC_ASCII_ANIMATION :: pystr where
  "MUSIC_ASCII_ANIMATION =
     [0xFBA9, 0x668, 0x640, 0xFBA9, 0xFBA9, 0x668, 0x640, 0xFBA9, 0x668, 0x640,
      0xFBA9, 0xFBA9, 0x668, 0x640]"

definition MUSIC_ANIMATION_INTERVAL :: int where
  "MUSIC_ANIMATION_INTERVAL = 2000"

text \<open>\<open>format_message_with_time\<close> (main.py, lines 414 to 419).\<close>

definition format_message_with_time :: "env \<Rightarrow> pystr \<Rightarrow> pystr" where
  "format_message_with_time e message =
     (case send_time e of
        Some current_time \<Rightarrow> py ''['' @ current_time @ py ''] '' @ message
      | None \<Rightarrow> message)"

text \<open>
  \<open>self._music_anim_after_id = self.root.after(ms, lambda: self.animate_music_status(send_osc=True))\<close>.
\<close>

definition schedule_animation :: "int \<Rightarrow> app \<Rightarrow> app" where
  "schedule_animation ms s =
     (let (i, s1) = root_after ms AnimateMusicStatus s in s1\<lparr>music_anim_after_id := Some i\<rparr>)"

text \<open>
  The text of one animation frame (main.py, lines 260 to 278): three characters of the
  animation string, taken circularly at the frame index, the song line, the time prefix
  and the window-info line. The attribute \<open>_last_lyrics\<close> is assigned nowhere in the
  program, so the lyrics lines are never added.
\<close>

definition animation_text :: "env \<Rightarrow> app \<Rightarrow> pystr" where
  "animation_text e s =
     (let ascii_anim = MUSIC_ASCII_ANIMATION;
          idx = music_anim_index s mod length ascii_anim;
          frame = (if idx + 3 \<le> length ascii_anim
                   then take 3 (drop idx ascii_anim)
                   else drop idx ascii_anim @ take (3 - (length ascii_anim - idx)) ascii_anim);
          base_text = frame @ py '' Now Playing: '' @ music_anim_title s @ py '' - '' @
                      music_anim_artist s;
          anim_text = format_message_with_time e base_text
      in case window_info e of
           None \<Rightarrow> anim_text
         | Some win_info \<Rightarrow>
             if win_info \<noteq> []
             then anim_text @ [0x0A] @ take 40 win_info @
                  (if length win_info > 40 then py ''...'' else [])
             else anim_text)"

text \<open>
  \<open>animate_music_status\<close> (main.py, lines 251 to 297). The \<open>try\<close> body is the first
  \<open>let\<close>: the stopped case with its auto-restart, the exception handler (the one call of
  the body that raises in this model is \<open>self.status_text.configure\<close>, before anything
  is sent), and the enqueue of the frame text. The \<open>finally\<close> clause follows.
\<close>

definition animate_music_status :: "env \<Rightarrow> bool \<Rightarrow> app \<Rightarrow> app" where
  "animate_music_status e send_osc s =
     (let s1 =
        (if \<not> music_anim_running s then
           (if started s then schedule_animation 1000 (s\<lparr>music_anim_running := True\<rparr>) else s)
         else
           (case widget_error e of
              Some exc \<Rightarrow>
                (if started s then schedule_animation 1500 (s\<lparr>music_anim_running := True\<rparr>)
                 else s)
            | None \<Rightarrow>
                let anim_text = animation_text e s;
                    s2 = (if send_osc \<or> music_anim_index s > 0
                          then snd (send_chatbox_message e anim_text (py ''music'') s)
                          else s)
                in s2\<lparr>music_anim_index := music_anim_index s2 + 1\<rparr>))
      in if music_anim_running s1 then schedule_animation MUSIC_ANIMATION_INTERVAL s1 else s1)"

text \<open>\<open>start_music_animation\<close> (main.py, lines 234 to 239).\<close>

definition start_music_animation :: "env \<Rightarrow> pystr \<Rightarrow> pystr \<Rightarrow> app \<Rightarrow> app" where
  "start_music_animation e title artist s =
     animate_music_status e True
       (s\<lparr>music_anim_index := 0, music_anim_title := title, music_anim_artist := artist,
          music_anim_running := True\<rparr>)"

text \<open>\<open>stop_music_animation\<close> (main.py, lines 241 to 249).\<close>

definition stop_music_animation :: "app \<Rightarrow> app" where
  "stop_music_animation s =
     (let s1 = s\<lparr>music_anim_running := False\<rparr> in
      case music_anim_after_id s1 of
        Some i \<Rightarrow> (root_after_cancel i s1)\<lparr>music_anim_after_id := None\<rparr>
      | None \<Rightarrow> s1)"

text \<open>
  \<open>on_stt_text\<close> (main.py, lines 1045 to 1085): the transcript is appended to the buffer,
  the animation is stopped, the buffer is enqueued when the VRChat switch is on, and the
  animation is set to resume ten seconds later. An exception of \<open>status_text.configure\<close>
  (line 1070) leaves the handler there.
\<close>

definition on_stt_text :: "env \<Rightarrow> pystr \<Rightarrow> app \<Rightarrow> app" where
  "on_stt_text e txt s =
     (let buffer0 = (case stt_chat_buffer s of None \<Rightarrow> [] | Some b \<Rightarrow> b);
          buffer1 =
            (if buffer0 \<noteq> [] \<and> py_strip txt \<noteq> [] then
               (let last_char = last buffer0;
                    first_char = hd txt
                in if \<not> py_in [last_char] (py ''.!?'') \<and> isupper e first_char
                   then buffer0 @ py ''. '' @ txt
                   else buffer0 @ py '' '' @ txt)
             else txt);
          s1 = stop_music_animation (s\<lparr>stt_chat_buffer := Some buffer1\<rparr>)
      in case widget_error e of
           Some exc \<Rightarrow> s1
         | None \<Rightarrow>
             let s2 = (if vrchat_enabled e
                       then snd (send_chatbox_message e (format_message_with_time e buffer1)
                                   (py ''stt'') s1)
                       else s1)
             in snd (root_after 10000 ResumeMusicAnimation s2))"


section \<open>The event loop\<close>

text \<open>
  A pending timer fires: it leaves the timer table and its callback runs. The resume
  callback of \<open>on_stt_text\<close> reads the title and the artist when it runs.
\<close>

definition run_callback :: "env \<Rightarrow> callback \<Rightarrow> app \<Rightarrow> app" where
  "run_callback e cb s =
     (case cb of
        ProcessMessageQueue \<Rightarrow> process_message_queue e s
      | AnimateMusicStatus \<Rightarrow> animate_music_status e True s
      | ResumeMusicAnimation \<Rightarrow>
          start_music_animation e (music_anim_title s) (music_anim_artist s) s)"

definition timer_fires :: "env \<Rightarrow> nat \<Rightarrow> app \<Rightarrow> app" where
  "timer_fires e i s =
     (case find (\<lambda>(j, ms, cb). j = i) (after_pending s) of
        None \<Rightarrow> s
      | Some (j, ms, cb) \<Rightarrow> run_callback e cb (root_after_cancel i s))"

text \<open>
  The calls the event loop makes into the queue and the animation: a producer sends a
  chatbox message, a timer fires, the song poller stops or starts the animation, a
  transcript arrives, the user presses Start (\<open>toggle_routing\<close>).
\<close>

datatype event =
    Send_Chatbox pystr pystr
  | Timer_Fires nat
  | Start_Music pystr pystr
  | Stop_Music
  | Stt_Text pystr
  | Toggle_Routing

definition step :: "env \<Rightarrow> event \<Rightarrow> app \<Rightarrow> app" where
  "step e ev s =
     (case ev of
        Send_Chatbox txt ty \<Rightarrow> snd (send_chatbox_message e txt ty s)
      | Timer_Fires i \<Rightarrow> timer_fires e i s
      | Start_Music title artist \<Rightarrow> start_music_animation e title artist s
      | Stop_Music \<Rightarrow> stop_music_animation s
      | Stt_Text txt \<Rightarrow> on_stt_text e txt s
      | Toggle_Routing \<Rightarrow> s\<lparr>started := True\<rparr>)"

fun run :: "(env \<times> event) list \<Rightarrow> app \<Rightarrow> app" where
  "run [] s = s"
| "run ((e, ev) # evs) s = run evs (step e ev s)"

text \<open>The pending ticks of the music animation.\<close>

definition pending_animation_ticks :: "app \<Rightarrow> nat list" where
  "pending_animation_ticks s =
     map fst (filter (\<lambda>(j, ms, cb). cb = AnimateMusicStatus) (after_pending s))"


section \<open>Observations and concrete collaborators\<close>

text \<open>The rate limiter's part of the state, with the processing flag and the calls made.\<close>

definition rate_state :: "app \<Rightarrow> bool \<times> pystr list \<times> real \<times> bool \<times> real" where
  "rate_state s =
     (queue_processing s, osc_calls s, last_chatbox_sent s, chatbox_timeout s,
      chatbox_timeout_until s)"

text \<open>The part of the state the queue logic reads and writes.\<close>

definition core :: "app \<Rightarrow> message_data list \<times> bool \<times> pystr list \<times> real \<times> bool \<times> real" where
  "core s = (message_queue s, rate_state s)"

text \<open>
  The conditions under which a drain does not reach its send: a drain is marked as in
  flight, the penalty window is open, or the minimum interval has not elapsed.
\<close>

definition drain_blocked :: "env \<Rightarrow> app \<Rightarrow> bool" where
  "drain_blocked e s \<longleftrightarrow>
     queue_processing s \<or>
     (chatbox_timeout s \<and> t_drain e < chatbox_timeout_until s) \<or>
     t_drain e - last_chatbox_sent s < min_interval"

text \<open>
  What one call of the event loop does to the core: nothing, one drain, or one enqueue.
\<close>

definition core_step :: "env \<Rightarrow> app \<Rightarrow> app \<Rightarrow> bool" where
  "core_step e s s' \<longleftrightarrow>
     core s' = core s \<or> core s' = core (process_message_queue e s) \<or>
     (\<exists>txt ty. core s' = core (snd (add_message_to_queue e txt ty s)))"

text \<open>
  An environment whose clock reads \<open>t\<close> at every place, with the time display and the
  window-info box off, no widget failure and the VRChat switch on.
\<close>

definition env_at :: "osc_client raises \<Rightarrow> real \<Rightarrow> env" where
  "env_at lookup t =
     \<lparr>osc_lookup = lookup, t_enqueue = t, t_drain = t, t_send = t, send_time = None,
      window_info = None, widget_error = None, vrchat_enabled = True,
      isupper = (\<lambda>c. 0x41 \<le> c \<and> c \<le> 0x5A)\<rparr>"

text \<open>
  The client of the program over a console that prints every text and a UDP socket that
  accepts every datagram, and a client that rejects every message the way the spec's
  scenario words it.
\<close>

definition console_ok :: "pystr \<Rightarrow> unit raises" where
  "console_ok line = Return ()"

definition udp_ok :: "pystr \<Rightarrow> unit raises" where
  "udp_ok m = Return ()"

definition vrchat_client :: "osc_client raises" where
  "vrchat_client = Return (send_chat_message console_ok udp_ok)"



definition spam_client :: "osc_client raises" where
  "spam_client = Return (\<lambda>m. Raise (py ''Timed out for spam, try again later''))"


text \<open>
  Two states of the application: one message waiting in a fresh application, and the
  application after its first message \<open>Hello\<close> went out at clock 1000.
\<close>

definition one_queued :: app where
  "one_queued =
     init_app\<lparr>message_queue :=
       [\<lparr>msg_text = py ''Hello'', msg_type = py ''general'', msg_timestamp = 1000\<rparr>]\<rparr>"

definition busy_app :: app where
  "busy_app =
     step (env_at vrchat_client 1000) (Send_Chatbox (py ''Hello'') (py ''general'')) init_app"


text \<open>
  The waiting message is rejected at clock 1000 with the spam diagnostic; and a run in
  which that rejection is followed by the drain timer, 1.5 seconds later, and by a
  second message, 31 seconds later.
\<close>

definition spam_rejected :: app where
  "spam_rejected = process_message_queue (env_at spam_client 1000) one_queued"



text \<open>
  The scenario of the spec: \<open>Hello\<close> and at once \<open>World\<close> are enqueued at clock 1000
  in a fresh application, and the drain timer set by the first send fires 1.5 seconds
  later.
\<close>

definition hello_world_run :: app where
  "hello_world_run =
     run [(env_at vrchat_client 1000, Send_Chatbox (py ''Hello'') (py ''general'')),
          (env_at vrchat_client 1000, Send_Chatbox (py ''World'') (py ''general'')),
          (env_at vrchat_client 1001.5, Timer_Fires 0)] init_app"

text \<open>
  Two transcripts arrive one second apart in a fresh application; the drain timer of the
  first send (identifier 0) fires, and the two resume timers that \<open>on_stt_text\<close> has
  set (identifiers 1 and 2) fire ten seconds after their transcripts. Later the two
  animation ticks then pending (identifiers 3 and 4) fire, two seconds after they were
  set.
\<close>

definition stt_twice_run :: app where
  "stt_twice_run =
     run [(env_at vrchat_client 1000, Stt_Text (py ''hello'')),
          (env_at vrchat_client 1001, Stt_Text (py ''world'')),
          (env_at vrchat_client 1001.5, Timer_Fires 0),
          (env_at vrchat_client 1010, Timer_Fires 1),
          (env_at vrchat_client 1011, Timer_Fires 2)] init_app"

definition stt_twice_later :: app where
  "stt_twice_later =
     run [(env_at vrchat_client 1012, Timer_Fires 3),
          (env_at vrchat_client 1013, Timer_Fires 4)] stt_twice_run"


text \<open>
  The states the application reaches keep this: while no drain is marked as in flight,
  nothing has been sent and no penalty has been recorded.
\<close>

definition reach_inv :: "app \<Rightarrow> bool" where
  "reach_inv s \<longleftrightarrow>
     (\<not> queue_processing s \<longrightarrow> last_chatbox_sent s = 0 \<and> \<not> chatbox_timeout s)"

text \<open>
  A list of producer calls \<open>send_chatbox_message(text, type)\<close>, each with its
  environment, as events; and the queue entry a valid call appends.
\<close>

definition sends :: "(env \<times> pystr \<times> pystr) list \<Rightarrow> (env \<times> event) list" where
  "sends ms = map (\<lambda>(e, tx, ty). (e, Send_Chatbox tx ty)) ms"

definition queued :: "env \<times> pystr \<times> pystr \<Rightarrow> message_data" where
  "queued m = (case m of (e, tx, ty) \<Rightarrow>
     \<lparr>msg_text = snd (validate_message tx), msg_type = ty, msg_timestamp = t_enqueue e\<rparr>)"

text \<open>
  Twelve one-letter messages \<open>a\<close> to \<open>l\<close> at clock 1000, and the fresh application
  after the first eleven of them.
\<close>

definition twelve :: "(env \<times> pystr \<times> pystr) list" where
  "twelve = map (\<lambda>n. (env_at vrchat_client 1000, [n], py ''general'')) [97..<109]"

definition eleven_sent :: app where
  "eleven_sent = run (sends (take 11 twelve)) init_app"


section \<open>Facts about the string operations\<close>

lemma py_space [simp]: "py '' '' = [0x20]"
  by (simp add: py_def)

lemma py_dots [simp]: "py ''...'' = [0x2E, 0x2E, 0x2E]"
  by (simp add: py_def)

lemma isspace_simps [simp]:
  "isspace 0x20" "isspace 0x0D" "isspace 0x0A" "\<not> isspace 0x00" "\<not> isspace 0x2E"
  by (simp_all add: isspace_def)

lemma py_strip_Nil_iff: "py_strip s = [] \<longleftrightarrow> (\<forall>c\<in>set s. isspace c)"
proof
  assume "py_strip s = []"
  then have "dropWhile isspace (rev (dropWhile isspace s)) = []"
    by (simp add: py_strip_def)
  then have a: "\<forall>c\<in>set (dropWhile isspace s). isspace c"
    by simp
  have "dropWhile isspace s = []"
  proof (cases "dropWhile isspace s")
    case Nil
    then show ?thesis .
  next
    case (Cons x xs)
    then have "\<not> isspace x"
      using hd_dropWhile[of isspace s] by simp
    with a Cons show ?thesis by simp
  qed
  then show "\<forall>c\<in>set s. isspace c" by simp
next
  assume "\<forall>c\<in>set s. isspace c"
  then show "py_strip s = []"
    by (auto simp: py_strip_def dest: set_dropWhileD)
qed

lemma split_from_words:
  "(\<forall>c\<in>set w. \<not> isspace c) \<Longrightarrow> v \<in> set (split_from w cs) \<Longrightarrow>
     v \<noteq> [] \<and> (\<forall>c\<in>set v. \<not> isspace c)"
proof (induction cs arbitrary: w)
  case Nil
  then show ?case by (simp split: if_splits)
next
  case (Cons c cs)
  show ?case
  proof (cases "isspace c")
    case True
    show ?thesis
    proof (cases "w = []")
      case True
      with \<open>isspace c\<close> Cons.prems have "v \<in> set (split_from [] cs)" by simp
      then show ?thesis using Cons.IH[of "[]"] by simp
    next
      case False
      with \<open>isspace c\<close> Cons.prems have "v = w \<or> v \<in> set (split_from [] cs)" by simp
      then show ?thesis using Cons.IH[of "[]"] Cons.prems(1) False by auto
    qed
  next
    case False
    with Cons.prems have "v \<in> set (split_from (w @ [c]) cs)" by simp
    moreover have "\<forall>x\<in>set (w @ [c]). \<not> isspace x"
      using False Cons.prems(1) by simp
    ultimately show ?thesis using Cons.IH[of "w @ [c]"] by blast
  qed
qed

lemma py_split_words:
  "v \<in> set (py_split s) \<Longrightarrow> v \<noteq> [] \<and> (\<forall>c\<in>set v. \<not> isspace c)"
  using split_from_words[of "[]" v s] by (simp add: py_split_def)

lemma split_from_append_space:
  "isspace c \<Longrightarrow> split_from w (u @ c # v) = split_from w u @ split_from [] v"
  by (induction u arbitrary: w) simp_all

lemma split_from_nospace:
  "\<forall>c\<in>set u. \<not> isspace c \<Longrightarrow> split_from w u = (if w @ u = [] then [] else [w @ u])"
  by (induction u arbitrary: w) simp_all

lemma py_join_set: "set (py_join sep ws) \<subseteq> set sep \<union> \<Union> (set ` set ws)"
proof (induction sep ws rule: py_join.induct)
  case (3 sep w v ws)
  then show ?case by (simp add: subset_iff) blast
qed simp_all

lemma py_join_filter:
  "(\<forall>c\<in>set sep. P c) \<Longrightarrow> filter P (py_join sep ws) = py_join sep (map (filter P) ws)"
  by (induction sep ws rule: py_join.induct) simp_all

lemma filter_words_id:
  "\<forall>v\<in>set ws. \<forall>c\<in>set v. P c \<Longrightarrow> map (filter P) ws = ws"
  by (induction ws) simp_all

lemma split_from_allspace:
  "\<forall>c\<in>set cs. isspace c \<Longrightarrow> split_from w cs = (if w = [] then [] else [w])"
  by (induction cs arbitrary: w) simp_all

lemma validate_message_ok:
  "fst (validate_message t) \<longleftrightarrow> \<not> (\<forall>c\<in>set t. isspace c)"
  by (auto simp: validate_message_def Let_def py_strip_Nil_iff)

lemma validate_message_short:
  assumes "length (py_join (py '' '') (py_split t)) \<le> 144"
  shows "snd (validate_message t) =
           (if \<forall>c\<in>set t. isspace c then py ''Empty message'' 
            else py_join (py '' '') (map (py_remove 0) (py_split t)))"
proof (cases "\<forall>c\<in>set t. isspace c")
  case True
  then show ?thesis by (auto simp: validate_message_def py_strip_Nil_iff)
next
  case False
  have w: "\<forall>v\<in>set (map (py_remove 0) (py_split t)). \<forall>c\<in>set v. c \<noteq> 0x0D"
  proof (intro ballI)
    fix v c assume "v \<in> set (map (py_remove 0) (py_split t))" "c \<in> set v"
    then obtain u where "u \<in> set (py_split t)" "c \<in> set u" by (auto simp: py_remove_def)
    then have "\<not> isspace c" using py_split_words[of u t] by simp
    then show "c \<noteq> 0x0D" by auto
  qed
  have s1: "py_remove 0 (py_join (py '' '') (py_split t)) = py_join (py '' '') (map (py_remove 0) (py_split t))"
    unfolding py_remove_def by (rule py_join_filter) simp
  have s2: "py_remove 0x0D (py_join (py '' '') ws) = py_join (py '' '') (map (py_remove 0x0D) ws)" for ws
    unfolding py_remove_def by (rule py_join_filter) simp
  have s3: "map (py_remove 0x0D) (map (py_remove 0) (py_split t)) = map (py_remove 0) (py_split t)"
    unfolding py_remove_def[of "0x0D"] by (rule filter_words_id) (use w in blast)
  have "py_remove 0x0D (py_remove 0 (py_join (py '' '') (py_split t)))
        = py_join (py '' '') (map (py_remove 0) (py_split t))"
    by (simp only: s1 s2 s3)
  with False assms show ?thesis
    by (auto simp: validate_message_def Let_def py_strip_Nil_iff max_message_length_def)
qed

lemma validate_message_long:
  assumes "length (py_join (py '' '') (py_split t)) > 144"
  shows "snd (validate_message t) =
           py_remove 0x0D (py_remove 0 (take 141 (py_join (py '' '') (py_split t)))) @ py ''...''"
proof -
  have "\<not> (\<forall>c\<in>set t. isspace c)"
  proof
    assume "\<forall>c\<in>set t. isspace c"
    then have "py_split t = []" by (simp add: py_split_def split_from_allspace)
    with assms show False by simp
  qed
  with assms show ?thesis
    by (auto simp: validate_message_def Let_def py_strip_Nil_iff max_message_length_def py_remove_def)
qed

lemma validate_message_length: "length (snd (validate_message t)) \<le> 144"
proof -
  have a: "length (py_remove c s) \<le> length s" for c s by (simp add: py_remove_def)
  have b: "length (py ''Empty message'') \<le> 144" by (simp add: py_def)
  show ?thesis
    unfolding validate_message_def Let_def max_message_length_def
    using b by (auto intro!: order_trans[OF a] order_trans[OF a a])
qed

lemma validate_message_no_nul_cr:
  "0x00 \<notin> set (snd (validate_message t)) \<and> 0x0D \<notin> set (snd (validate_message t))"
  by (auto simp: validate_message_def Let_def py_remove_def py_def)

lemma validate_message_spaces:
  "c \<in> set (snd (validate_message t)) \<Longrightarrow> fst (validate_message t) \<Longrightarrow> isspace c \<Longrightarrow> c = 0x20"
proof -
  assume c: "c \<in> set (snd (validate_message t))" and ok: "fst (validate_message t)" and sp: "isspace c"
  let ?j = "py_join (py '' '') (py_split t)"
  have j: "x \<in> set ?j \<Longrightarrow> isspace x \<Longrightarrow> x = 0x20" for x
  proof -
    assume "x \<in> set ?j" "isspace x"
    then have "x \<in> set (py '' '') \<union> \<Union> (set ` set (py_split t))" using py_join_set by blast
    then show ?thesis using py_split_words[of _ t] \<open>isspace x\<close> by auto
  qed
  from c ok have "c \<in> set ?j \<or> c = 0x2E"
    by (auto simp: validate_message_def Let_def py_remove_def split: if_splits dest: in_set_takeD)
  with sp j show ?thesis by auto
qed


lemma py_split_append_space: "isspace c \<Longrightarrow> py_split (u @ c # v) = py_split u @ py_split v"
  by (simp add: py_split_def split_from_append_space)

lemma py_split_word: "w \<noteq> [] \<Longrightarrow> \<forall>c\<in>set w. \<not> isspace c \<Longrightarrow> py_split w = [w]"
  by (simp add: py_split_def split_from_nospace)

lemma take_join_no_cr:
  "0x0D \<notin> set (take n (py_join (py '' '') (py_split t)))"
proof
  assume "0x0D \<in> set (take n (py_join (py '' '') (py_split t)))"
  then have "0x0D \<in> set (py_join (py '' '') (py_split t))" by (rule in_set_takeD)
  then have "0x0D \<in> set (py '' '') \<union> \<Union> (set ` set (py_split t))" using py_join_set by blast
  then obtain w where "w \<in> set (py_split t)" "0x0D \<in> set w" by auto
  then show False using py_split_words[of w t] by auto
qed

lemma validate_message_long2:
  assumes "length (py_join (py '' '') (py_split t)) > 144"
  shows "snd (validate_message t) = py_remove 0 (take 141 (py_join (py '' '') (py_split t))) @ py ''...''"
proof -
  have "0x0D \<notin> set (py_remove 0 (take 141 (py_join (py '' '') (py_split t))))"
    using take_join_no_cr[of 141 t] by (simp add: py_remove_def)
  then have "py_remove 0x0D (py_remove 0 (take 141 (py_join (py '' '') (py_split t)))) =
             py_remove 0 (take 141 (py_join (py '' '') (py_split t)))"
    unfolding py_remove_def[of "0x0D"] by (auto simp: filter_id_conv)
  with validate_message_long[OF assms] show ?thesis by simp
qed

lemma validate_message_long_ok:
  assumes "length (py_join (py '' '') (py_split t)) > 144"
  shows "fst (validate_message t)"
proof -
  have "\<not> (\<forall>c\<in>set t. isspace c)"
  proof
    assume "\<forall>c\<in>set t. isspace c"
    then have "py_split t = []" by (simp add: py_split_def split_from_allspace)
    with assms show False by simp
  qed
  then show ?thesis by (simp add: validate_message_ok)
qed


section \<open>Facts about the queue\<close>

lemma send_message_direct_fields:
  "queue_processing (snd (send_message_direct e txt s)) = queue_processing s"
  "message_queue (snd (send_message_direct e txt s)) = message_queue s"
  "after_pending (snd (send_message_direct e txt s)) = after_pending s"
  "chatbox_timeout s \<Longrightarrow> chatbox_timeout (snd (send_message_direct e txt s))"
  by (auto simp: send_message_direct_def Let_def split: raises.splits prod.splits)

lemma path_not_else: "fst (process_message_queue_path e s) \<noteq> Else_Branch"
  by (auto simp: process_message_queue_path_def Let_def split_beta split: list.splits)

lemma path_sent_processing:
  "fst (process_message_queue_path e s) = Sent_Next \<Longrightarrow> queue_processing (snd (process_message_queue_path e s))"
  by (auto simp: process_message_queue_path_def Let_def root_after_def append_chat_log_def send_message_direct_fields
      split_beta split: list.splits if_splits)

lemma pmq_processing:
  "queue_processing s \<Longrightarrow> process_message_queue e s = s"
  by (simp add: process_message_queue_def process_message_queue_path_def)

lemma amq_processing:
  "queue_processing s \<Longrightarrow> queue_processing (snd (add_message_to_queue e txt ty s))"
  by (auto simp: add_message_to_queue_def Let_def split: prod.splits bool.splits)

lemma anim_processing:
  "queue_processing s \<Longrightarrow> queue_processing (animate_music_status e b s)"
  by (auto simp: animate_music_status_def Let_def schedule_animation_def root_after_def send_chatbox_message_def amq_processing
      split_beta split: option.splits)

lemma stop_processing:
  "queue_processing (stop_music_animation s) = queue_processing s"
  by (auto simp: stop_music_animation_def Let_def root_after_cancel_def split: option.splits)

lemma step_processing: "queue_processing s \<Longrightarrow> queue_processing (step e ev s)"
  by (cases ev) (auto simp: step_def send_chatbox_message_def amq_processing anim_processing start_music_animation_def
       stop_processing on_stt_text_def Let_def root_after_def timer_fires_def run_callback_def root_after_cancel_def pmq_processing
      split_beta split: option.splits callback.splits)

lemma run_processing: "queue_processing s \<Longrightarrow> queue_processing (run evs s)"
  by (induction evs arbitrary: s) (auto simp: step_processing)


lemma amq_busy:
  "queue_processing s \<Longrightarrow>
   snd (add_message_to_queue e txt ty s) =
     (if fst (validate_message txt)
      then s\<lparr>message_queue := (if length (message_queue s) \<ge> max_queue_size then tl (message_queue s) else message_queue s)
               @ [\<lparr>msg_text = snd (validate_message txt), msg_type = ty, msg_timestamp = t_enqueue e\<rparr>]\<rparr>
      else s)"
  by (auto simp: add_message_to_queue_def Let_def split: prod.splits bool.splits)

lemma amq_fst: "fst (add_message_to_queue e txt ty s) = fst (validate_message txt)"
  by (auto simp: add_message_to_queue_def Let_def split: prod.splits bool.splits)

lemma amq_busy_rate: "queue_processing s \<Longrightarrow> rate_state (snd (add_message_to_queue e txt ty s)) = rate_state s"
  by (simp add: amq_busy rate_state_def)

lemma anim_busy_rate: "queue_processing s \<Longrightarrow> rate_state (animate_music_status e b s) = rate_state s"
  using amq_busy_rate[of s e]
  by (auto simp: animate_music_status_def Let_def schedule_animation_def root_after_def send_chatbox_message_def rate_state_def
      split_beta split: option.splits)

lemma stop_rate: "rate_state (stop_music_animation s) = rate_state s"
  by (auto simp: stop_music_animation_def Let_def root_after_cancel_def rate_state_def split: option.splits)

lemma start_busy_rate: "queue_processing s \<Longrightarrow> rate_state (start_music_animation e t a s) = rate_state s"
  using anim_busy_rate[of "s\<lparr>music_anim_index := 0, music_anim_title := t, music_anim_artist := a, music_anim_running := True\<rparr>" e True]
  by (simp add: start_music_animation_def rate_state_def)

lemma stt_busy_rate: "queue_processing s \<Longrightarrow> rate_state (on_stt_text e txt s) = rate_state s"
proof -
  assume p: "queue_processing s"
  have q: "queue_processing (stop_music_animation (s\<lparr>stt_chat_buffer := b\<rparr>))" for b
    using p by (simp add: stop_processing)
  have r: "rate_state (stop_music_animation (s\<lparr>stt_chat_buffer := b\<rparr>)) = rate_state s" for b
    by (simp add: stop_rate) (simp add: rate_state_def)
  show ?thesis
    using amq_busy_rate[OF q] r
    by (auto simp: on_stt_text_def Let_def send_chatbox_message_def root_after_def rate_state_def split: option.splits)
qed

lemma timer_busy_rate: "queue_processing s \<Longrightarrow> rate_state (timer_fires e i s) = rate_state s"
proof -
  assume p: "queue_processing s"
  let ?s = "root_after_cancel i s"
  have q: "queue_processing ?s" using p by (simp add: root_after_cancel_def)
  have r: "rate_state ?s = rate_state s" by (simp add: root_after_cancel_def rate_state_def)
  show ?thesis
    using pmq_processing[OF q] anim_busy_rate[OF q] start_busy_rate[OF q] r
    by (auto simp: timer_fires_def run_callback_def split: option.splits callback.splits)
qed

lemma step_busy_rate: "queue_processing s \<Longrightarrow> rate_state (step e ev s) = rate_state s"
  by (cases ev) (simp_all add: step_def send_chatbox_message_def amq_busy_rate timer_busy_rate start_busy_rate stop_rate stt_busy_rate,
      simp add: rate_state_def)

lemma run_busy_rate: "queue_processing s \<Longrightarrow> rate_state (run evs s) = rate_state s"
proof (induction evs arbitrary: s)
  case Nil then show ?case by simp
next
  case (Cons x evs)
  obtain e ev where x: "x = (e, ev)" by (cases x)
  have "queue_processing (step e ev s)" using Cons.prems by (rule step_processing)
  then have "rate_state (run evs (step e ev s)) = rate_state (step e ev s)" by (rule Cons.IH)
  then show ?case using step_busy_rate[OF Cons.prems] x by simp
qed



section \<open>Every call is at most one drain or one enqueue\<close>

lemma core_eq_iff:
  "core s' = core s \<longleftrightarrow> message_queue s' = message_queue s \<and> queue_processing s' = queue_processing s \<and>
     osc_calls s' = osc_calls s \<and> last_chatbox_sent s' = last_chatbox_sent s \<and>
     chatbox_timeout s' = chatbox_timeout s \<and> chatbox_timeout_until s' = chatbox_timeout_until s"
  by (auto simp: core_def rate_state_def)

lemma smd_core_cong:
  "core s' = core s \<Longrightarrow> fst (send_message_direct e txt s') = fst (send_message_direct e txt s) \<and>
      core (snd (send_message_direct e txt s')) = core (snd (send_message_direct e txt s))"
  by (auto simp: core_eq_iff send_message_direct_def Let_def split: raises.splits)

lemma pmq_core_cong:
  assumes "core s' = core s"
  shows "core (process_message_queue e s') = core (process_message_queue e s)"
proof -
  from assms have q: "message_queue s' = message_queue s" and p: "queue_processing s' = queue_processing s"
    and t: "chatbox_timeout s' = chatbox_timeout s" "chatbox_timeout_until s' = chatbox_timeout_until s"
      "last_chatbox_sent s' = last_chatbox_sent s" "osc_calls s' = osc_calls s"
    by (simp_all add: core_eq_iff)
  show ?thesis
  proof (cases "message_queue s")
    case Nil
    with q show ?thesis using assms by (simp add: process_message_queue_def process_message_queue_path_def)
  next
    case (Cons m rest)
    have c: "core (s'\<lparr>queue_processing := True, message_queue := rest\<rparr>) = core (s\<lparr>queue_processing := True, message_queue := rest\<rparr>)"
      using assms by (simp add: core_eq_iff)
    note k = smd_core_cong[OF c, of e "msg_text m"]
    show ?thesis
      using q p t Cons k
      by (simp add: process_message_queue_def process_message_queue_path_def Let_def split_beta
          root_after_def append_chat_log_def core_eq_iff)
  qed
qed

lemma amq_core_cong:
  assumes "core s' = core s"
  shows "core (snd (add_message_to_queue e txt ty s')) = core (snd (add_message_to_queue e txt ty s))"
proof -
  have c: "core (s'\<lparr>message_queue := q\<rparr>) = core (s\<lparr>message_queue := q\<rparr>)" for q
    using assms by (simp add: core_eq_iff)
  from assms have q: "message_queue s' = message_queue s" and p: "queue_processing s' = queue_processing s"
    by (simp_all add: core_eq_iff)
  show ?thesis
    using q p pmq_core_cong[OF c] c assms
    by (auto simp: add_message_to_queue_def Let_def split: prod.splits bool.splits)
qed

lemma amq_invalid: "\<not> fst (validate_message txt) \<Longrightarrow> snd (add_message_to_queue e txt ty s) = s"
  by (auto simp: add_message_to_queue_def split: prod.splits bool.splits)

lemma core_stepI1: "core s' = core s \<Longrightarrow> core_step e s s'"
  by (simp add: core_step_def)

lemma core_stepI2: "core s0 = core s \<Longrightarrow> core s' = core (process_message_queue e s0) \<Longrightarrow> core_step e s s'"
  using pmq_core_cong[of s0 s e] by (simp add: core_step_def)

lemma core_stepI3: "core s0 = core s \<Longrightarrow> core s' = core (snd (add_message_to_queue e txt ty s0)) \<Longrightarrow> core_step e s s'"
  using amq_core_cong[of s0 s e _ ty] by (auto simp: core_step_def)

lemma sched_core: "core (schedule_animation ms s) = core s"
  by (simp add: schedule_animation_def root_after_def split_beta core_eq_iff)

lemma anim_core_step: "core_step e s (animate_music_status e b s)"
proof -
  have fin: "core (if music_anim_running s1 then schedule_animation MUSIC_ANIMATION_INTERVAL s1 else s1) = core s1" for s1
    by (simp add: sched_core)
  have upd: "core (s1\<lparr>music_anim_index := n\<rparr>) = core s1" "core (s1\<lparr>music_anim_running := r\<rparr>) = core s1" for s1 n r
    by (simp_all add: core_eq_iff)
  show ?thesis
  proof (cases "music_anim_running s \<and> widget_error e = None \<and> (b \<or> music_anim_index s > 0)")
    case False
    then have "core (animate_music_status e b s) = core s"
      unfolding animate_music_status_def Let_def
      by (auto simp: fin upd sched_core split: option.splits)
    then show ?thesis by (rule core_stepI1)
  next
    case True
    then have "core (animate_music_status e b s) = core (snd (add_message_to_queue e (animation_text e s) (py ''music'') s))"
      by (simp add: animate_music_status_def Let_def send_chatbox_message_def sched_core upd)
    then show ?thesis by (auto simp: core_step_def)
  qed
qed

lemma start_core_step: "core_step e s (start_music_animation e t a s)"
proof -
  let ?s0 = "s\<lparr>music_anim_index := 0, music_anim_title := t, music_anim_artist := a, music_anim_running := True\<rparr>"
  have c: "core ?s0 = core s" by (simp add: core_eq_iff)
  have "core_step e ?s0 (animate_music_status e True ?s0)" by (rule anim_core_step)
  then show ?thesis
    unfolding start_music_animation_def core_step_def
    using pmq_core_cong[OF c, of e] amq_core_cong[OF c, of e] c by metis
qed

lemma stop_core: "core (stop_music_animation s) = core s"
  by (auto simp: stop_music_animation_def Let_def root_after_cancel_def core_eq_iff split: option.splits)

lemma stt_core_step: "core_step e s (on_stt_text e txt s)"
proof -
  have c: "core (stop_music_animation (s\<lparr>stt_chat_buffer := b\<rparr>)) = core s" for b
    by (simp add: stop_core) (simp add: core_eq_iff)
  have r: "core (snd (root_after ms cb s1)) = core s1" for ms cb s1
    by (simp add: root_after_def core_eq_iff)
  show ?thesis
  proof (cases "widget_error e = None \<and> vrchat_enabled e")
    case False
    then have "core (on_stt_text e txt s) = core s"
      unfolding on_stt_text_def Let_def by (auto simp: c r split: option.splits)
    then show ?thesis by (rule core_stepI1)
  next
    case True
    then have "\<exists>b m. core (on_stt_text e txt s) = core (snd (add_message_to_queue e m (py ''stt'') (stop_music_animation (s\<lparr>stt_chat_buffer := b\<rparr>))))"
      by (auto simp: on_stt_text_def Let_def send_chatbox_message_def r)
    then show ?thesis using core_stepI3[OF c] by blast
  qed
qed

lemma timer_core_step: "core_step e s (timer_fires e i s)"
proof (cases "find (\<lambda>(j, ms, cb). j = i) (after_pending s)")
  case None
  then show ?thesis by (simp add: timer_fires_def core_step_def)
next
  case (Some x)
  obtain j ms cb where x: "x = (j, ms, cb)" by (cases x)
  let ?s0 = "root_after_cancel i s"
  have c: "core ?s0 = core s" by (simp add: root_after_cancel_def core_eq_iff)
  have "core_step e ?s0 (run_callback e cb ?s0)"
    by (cases cb) (simp_all add: run_callback_def anim_core_step start_core_step, simp add: core_step_def)
  then have "core_step e s (run_callback e cb ?s0)"
    unfolding core_step_def using pmq_core_cong[OF c, of e] amq_core_cong[OF c, of e] c by metis
  with Some x show ?thesis by (simp add: timer_fires_def)
qed

lemma step_core_step: "core_step e s (step e ev s)"
proof (cases ev)
  case (Send_Chatbox m ty)
  then show ?thesis by (auto simp: step_def send_chatbox_message_def core_step_def)
next
  case Toggle_Routing
  then show ?thesis by (simp add: step_def core_step_def core_eq_iff)
qed (simp_all add: step_def timer_core_step start_core_step stt_core_step stop_core core_stepI1)

lemma step_preserves:
  assumes "\<And>s. P (core s) \<Longrightarrow> P (core (process_message_queue e s))"
      and "\<And>s txt ty. P (core s) \<Longrightarrow> P (core (snd (add_message_to_queue e txt ty s)))"
      and "P (core s)"
  shows "P (core (step e ev s))"
  using step_core_step[of e s ev] assms unfolding core_step_def by metis


section \<open>A blocked drain sends nothing; the timeout flag is never reset\<close>

lemma drain_blocked_cong: "rate_state s' = rate_state s \<Longrightarrow> drain_blocked e s' = drain_blocked e s"
  by (simp add: drain_blocked_def rate_state_def)

lemma path_sent_iff:
  "fst (process_message_queue_path e s) = Sent_Next \<longleftrightarrow> \<not> drain_blocked e s \<and> message_queue s \<noteq> []"
  by (auto simp: process_message_queue_path_def drain_blocked_def Let_def split_beta split: list.splits)

lemma pmq_blocked: "drain_blocked e s \<Longrightarrow> core (process_message_queue e s) = core s"
  by (auto simp: process_message_queue_def process_message_queue_path_def drain_blocked_def Let_def
      root_after_def core_eq_iff split: list.splits)

lemma amq_blocked:
  assumes "drain_blocked e s"
  shows "rate_state (snd (add_message_to_queue e tx ty s)) = rate_state s"
proof -
  have b: "drain_blocked e (s\<lparr>message_queue := q\<rparr>)" for q
    using assms by (simp add: drain_blocked_def)
  have "rate_state (process_message_queue e (s\<lparr>message_queue := q\<rparr>)) = rate_state s" for q
    using pmq_blocked[OF b, of q] by (simp add: core_def rate_state_def)
  then show ?thesis
    by (auto simp: add_message_to_queue_def Let_def rate_state_def split: prod.splits bool.splits)
qed

lemma step_blocked:
  assumes "drain_blocked e s"
  shows "rate_state (step e ev s) = rate_state s"
proof -
  have "snd (core (step e ev s)) = rate_state s"
  proof (rule step_preserves[where P = "\<lambda>c. snd c = rate_state s"])
    fix s1 assume "snd (core s1) = rate_state s"
    then have r: "rate_state s1 = rate_state s" by (simp add: core_def)
    then have "drain_blocked e s1" using assms drain_blocked_cong by blast
    then show "snd (core (process_message_queue e s1)) = rate_state s"
      using pmq_blocked[of e s1] r by (simp add: core_def)
  next
    fix s1 tx ty assume "snd (core s1) = rate_state s"
    then have r: "rate_state s1 = rate_state s" by (simp add: core_def)
    then have "drain_blocked e s1" using assms drain_blocked_cong by blast
    then show "snd (core (snd (add_message_to_queue e tx ty s1))) = rate_state s"
      using amq_blocked[of e s1] r by (simp add: core_def)
  next
    show "snd (core s) = rate_state s" by (simp add: core_def)
  qed
  then show ?thesis by (simp add: core_def)
qed

lemma run_blocked:
  "\<forall>x\<in>set evs. drain_blocked (fst x) s \<Longrightarrow> rate_state (run evs s) = rate_state s"
proof (induction evs arbitrary: s)
  case Nil
  then show ?case by simp
next
  case (Cons x evs)
  obtain e ev where x: "x = (e, ev)" by (cases x)
  from Cons.prems x have b: "drain_blocked e s" by simp
  have r: "rate_state (step e ev s) = rate_state s" using b by (rule step_blocked)
  have "\<forall>y\<in>set evs. drain_blocked (fst y) (step e ev s)"
    using Cons.prems drain_blocked_cong[OF r] by simp
  then have "rate_state (run evs (step e ev s)) = rate_state (step e ev s)" by (rule Cons.IH)
  with r x show ?case by simp
qed







text \<open>The definitions a concrete run of the model unfolds.\<close>

lemmas model_defs = step_def send_chatbox_message_def add_message_to_queue_def process_message_queue_def
  process_message_queue_path_def send_message_direct_def validate_message_def Let_def split_beta
  py_strip_def py_split_def py_remove_def max_message_length_def max_queue_size_def min_interval_def
  root_after_def root_after_cancel_def append_chat_log_def py_title_def py_int_def is_spam_diagnostic_def
  py_lower_def timer_fires_def run_callback_def env_at_def vrchat_client_def spam_client_def send_chat_message_def udp_ok_def
  console_ok_def init_app_def py_def isspace_def






section \<open>Facts about the animation timers\<close>

lemma animation_text_valid: "fst (validate_message (animation_text e s))"
proof -
  have "0x4E \<in> set (animation_text e s)"
    by (simp add: animation_text_def Let_def format_message_with_time_def py_def split: option.splits)
  moreover have "\<not> isspace 0x4E" by (simp add: isspace_def)
  ultimately show ?thesis unfolding validate_message_ok by blast
qed

lemma amq_valid:
  "fst (validate_message tx) \<Longrightarrow>
   snd (add_message_to_queue e tx ty s) =
     (let s2 = s\<lparr>message_queue :=
                 (if length (message_queue s) \<ge> max_queue_size then tl (message_queue s)
                  else message_queue s) @
                 [\<lparr>msg_text = snd (validate_message tx), msg_type = ty, msg_timestamp = t_enqueue e\<rparr>]\<rparr>
      in if \<not> queue_processing s then process_message_queue e s2 else s2)"
  by (auto simp: add_message_to_queue_def Let_def split: prod.splits bool.splits)

lemma validate_hi: "validate_message (py ''hi'') = (True, py ''hi'')"
  by (simp add: validate_message_def py_def py_strip_def isspace_def py_split_def py_remove_def
        max_message_length_def)

lemmas run_defs = step_def send_chatbox_message_def process_message_queue_def
  process_message_queue_path_def send_message_direct_def Let_def split_beta
  max_queue_size_def min_interval_def root_after_def root_after_cancel_def append_chat_log_def
  py_int_def timer_fires_def run_callback_def env_at_def vrchat_client_def
  send_chat_message_def udp_ok_def console_ok_def init_app_def
  start_music_animation_def animate_music_status_def stop_music_animation_def
  on_stt_text_def schedule_animation_def format_message_with_time_def
  MUSIC_ANIMATION_INTERVAL_def pending_animation_ticks_def

lemma validate_nonspace: "c \<in> set tx \<Longrightarrow> \<not> isspace c \<Longrightarrow> fst (validate_message tx)"
  unfolding validate_message_ok by blast

lemma valid_hello: "fst (validate_message [104, 101, 108, 108, 111])"
  by (rule validate_nonspace[of 104]) (simp_all add: isspace_def)

lemma valid_hello_world: "fst (validate_message [104, 101, 108, 108, 111, 32, 119, 111, 114, 108, 100])"
  by (rule validate_nonspace[of 104]) (simp_all add: isspace_def)

lemma stt_twice_state:
  "after_pending stt_twice_run =
     [(3, 2000, AnimateMusicStatus), (4, 2000, AnimateMusicStatus)] \<and>
   music_anim_after_id stt_twice_run = Some 4 \<and> music_anim_running stt_twice_run \<and>
   after_next_id stt_twice_run = 5 \<and> queue_processing stt_twice_run \<and> 
   music_anim_index stt_twice_run = 1 \<and> \<not> started stt_twice_run \<and>
   length (message_queue stt_twice_run) = 3"
  by (simp add: stt_twice_run_def run_defs amq_valid animation_text_valid valid_hello valid_hello_world
      py_def py_strip_def isspace_def)


lemma smd_pending: "after_pending (snd (send_message_direct e tx s)) = after_pending s"
  by (auto simp: send_message_direct_def Let_def split: raises.splits)

lemma pmq_ticks: "pending_animation_ticks (process_message_queue e s) = pending_animation_ticks s"
  by (auto simp: process_message_queue_def process_message_queue_path_def Let_def split_beta
      root_after_def append_chat_log_def smd_pending pending_animation_ticks_def split: list.splits)

lemma amq_ticks: "pending_animation_ticks (snd (add_message_to_queue e tx ty s)) = pending_animation_ticks s"
proof -
  have "pending_animation_ticks (process_message_queue e (s\<lparr>message_queue := q\<rparr>)) = pending_animation_ticks s" for q
    by (simp add: pmq_ticks) (simp add: pending_animation_ticks_def)
  then show ?thesis
    by (auto simp: add_message_to_queue_def Let_def pending_animation_ticks_def split: prod.splits bool.splits)
qed

lemma sched_ticks:
  "pending_animation_ticks (schedule_animation ms s) = pending_animation_ticks s @ [after_next_id s]"
  by (simp add: schedule_animation_def root_after_def split_beta pending_animation_ticks_def)

lemma ticks_cong: "after_pending s' = after_pending s \<Longrightarrow> pending_animation_ticks s' = pending_animation_ticks s"
  by (simp add: pending_animation_ticks_def)

lemma anim_ticks:
  "\<exists>new. pending_animation_ticks (animate_music_status e b s) = pending_animation_ticks s @ new"
proof -
  define s1 where "s1 =
        (if \<not> music_anim_running s then
           (if started s then schedule_animation 1000 (s\<lparr>music_anim_running := True\<rparr>) else s)
         else
           (case widget_error e of
              Some exc \<Rightarrow>
                (if started s then schedule_animation 1500 (s\<lparr>music_anim_running := True\<rparr>)
                 else s)
            | None \<Rightarrow>
                let anim_text = animation_text e s;
                    s2 = (if b \<or> music_anim_index s > 0
                          then snd (send_chatbox_message e anim_text (py ''music'') s)
                          else s)
                in s2\<lparr>music_anim_index := music_anim_index s2 + 1\<rparr>))"
  have r: "pending_animation_ticks (s\<lparr>music_anim_running := True\<rparr>) = pending_animation_ticks s"
    by (rule ticks_cong) simp
  have i: "pending_animation_ticks (s2\<lparr>music_anim_index := n\<rparr>) = pending_animation_ticks s2" for s2 n
    by (rule ticks_cong) simp
  have "\<exists>new. pending_animation_ticks s1 = pending_animation_ticks s @ new"
    unfolding s1_def Let_def send_chatbox_message_def
    by (auto simp: sched_ticks r i amq_ticks split: option.splits)
  then obtain new1 where n1: "pending_animation_ticks s1 = pending_animation_ticks s @ new1" by blast
  have f: "animate_music_status e b s =
        (if music_anim_running s1 then schedule_animation MUSIC_ANIMATION_INTERVAL s1 else s1)"
    by (simp add: animate_music_status_def s1_def Let_def)
  show ?thesis
    unfolding f using n1 by (auto simp: sched_ticks)
qed

lemma start_ticks:
  "\<exists>new. pending_animation_ticks (start_music_animation e t a s) = pending_animation_ticks s @ new"
proof -
  let ?s0 = "s\<lparr>music_anim_index := 0, music_anim_title := t, music_anim_artist := a, music_anim_running := True\<rparr>"
  have z: "pending_animation_ticks ?s0 = pending_animation_ticks s" by (rule ticks_cong) simp
  show ?thesis
    unfolding start_music_animation_def using anim_ticks[of e True ?s0] z by simp
qed


section \<open>The bounded queue\<close>

lemma pmq_queue:
  "message_queue (process_message_queue e s) =
     (if drain_blocked e s then message_queue s else tl (message_queue s))"
proof (cases "drain_blocked e s")
  case True
  then show ?thesis using pmq_blocked[of e s] by (simp add: core_eq_iff)
next
  case False
  then show ?thesis
    by (auto simp: process_message_queue_def process_message_queue_path_def drain_blocked_def Let_def
        split_beta root_after_def append_chat_log_def send_message_direct_fields split: list.splits)
qed

lemma pmq_unblocked_processing:
  "\<not> drain_blocked e s \<Longrightarrow> message_queue s \<noteq> [] \<Longrightarrow> queue_processing (process_message_queue e s)"
  using path_sent_iff[of e s] path_sent_processing[of e s] by (simp add: process_message_queue_def)

lemma pmq_len: "length (message_queue (process_message_queue e s)) \<le> length (message_queue s)"
  by (simp add: pmq_queue)

lemma amq_len:
  assumes l: "length (message_queue s) \<le> max_queue_size"
  shows "length (message_queue (snd (add_message_to_queue e tx ty s))) \<le> max_queue_size"
proof (cases "fst (validate_message tx)")
  case False
  then show ?thesis using l by (simp add: amq_invalid)
next
  case True
  let ?q = "(if length (message_queue s) \<ge> max_queue_size then tl (message_queue s) else message_queue s) @
            [\<lparr>msg_text = snd (validate_message tx), msg_type = ty, msg_timestamp = t_enqueue e\<rparr>]"
  have a: "length ?q \<le> max_queue_size" using l by (auto simp: max_queue_size_def)
  have "length (message_queue (process_message_queue e (s\<lparr>message_queue := ?q\<rparr>))) \<le> length ?q"
    using pmq_len[of e "s\<lparr>message_queue := ?q\<rparr>"] by simp
  with a show ?thesis using True by (simp add: amq_valid Let_def del: length_append)
qed

lemma step_len:
  "length (message_queue s) \<le> max_queue_size \<Longrightarrow> length (message_queue (step e ev s)) \<le> max_queue_size"
proof -
  assume a: "length (message_queue s) \<le> max_queue_size"
  have "length (fst (core (step e ev s))) \<le> max_queue_size"
  proof (rule step_preserves[where P = "\<lambda>c. length (fst c) \<le> max_queue_size"])
    fix s1 assume "length (fst (core s1)) \<le> max_queue_size"
    then show "length (fst (core (process_message_queue e s1))) \<le> max_queue_size"
      using pmq_len[of e s1] by (simp add: core_def)
  next
    fix s1 tx ty assume "length (fst (core s1)) \<le> max_queue_size"
    then show "length (fst (core (snd (add_message_to_queue e tx ty s1)))) \<le> max_queue_size"
      using amq_len[of s1 e tx ty] by (simp add: core_def)
  next
    show "length (fst (core s)) \<le> max_queue_size" using a by (simp add: core_def)
  qed
  then show ?thesis by (simp add: core_def)
qed

lemma run_len:
  "length (message_queue s) \<le> max_queue_size \<Longrightarrow> length (message_queue (run evs s)) \<le> max_queue_size"
  by (induction evs arbitrary: s) (auto simp: step_len)

lemma reach_inv_cong: "rate_state s' = rate_state s \<Longrightarrow> reach_inv s' = reach_inv s"
  by (simp add: reach_inv_def rate_state_def)

lemma pmq_reach:
  assumes i: "reach_inv s"
  shows "reach_inv (process_message_queue e s)"
proof (cases "drain_blocked e s \<or> message_queue s = []")
  case True
  from True have "core (process_message_queue e s) = core s"
  proof
    assume "drain_blocked e s" then show ?thesis by (rule pmq_blocked)
  next
    assume "message_queue s = []"
    then show ?thesis by (simp add: process_message_queue_def process_message_queue_path_def)
  qed
  then have "rate_state (process_message_queue e s) = rate_state s" by (simp add: core_def)
  from reach_inv_cong[OF this] i show ?thesis by simp
next
  case False
  then have "queue_processing (process_message_queue e s)" by (simp add: pmq_unblocked_processing)
  then show ?thesis by (simp add: reach_inv_def)
qed

lemma amq_reach:
  assumes i: "reach_inv s"
  shows "reach_inv (snd (add_message_to_queue e tx ty s))"
proof (cases "queue_processing s")
  case True
  then have "rate_state (snd (add_message_to_queue e tx ty s)) = rate_state s" by (rule amq_busy_rate)
  from reach_inv_cong[OF this] i show ?thesis by simp
next
  case False
  show ?thesis
  proof (cases "fst (validate_message tx)")
    case False
    with i show ?thesis by (simp add: amq_invalid)
  next
    case True
    define q where "q = (if length (message_queue s) \<ge> max_queue_size then tl (message_queue s)
                  else message_queue s) @
                 [\<lparr>msg_text = snd (validate_message tx), msg_type = ty, msg_timestamp = t_enqueue e\<rparr>]"
    have e: "snd (add_message_to_queue e tx ty s) = process_message_queue e (s\<lparr>message_queue := q\<rparr>)"
      using \<open>\<not> queue_processing s\<close> by (simp add: amq_valid[OF True] Let_def q_def)
    have "reach_inv (s\<lparr>message_queue := q\<rparr>)" using i by (simp add: reach_inv_def)
    then show ?thesis unfolding e by (rule pmq_reach)
  qed
qed

lemma step_reach: "reach_inv s \<Longrightarrow> reach_inv (step e ev s)"
proof -
  assume a: "reach_inv s"
  let ?P = "\<lambda>c::message_data list \<times> bool \<times> pystr list \<times> real \<times> bool \<times> real.
              \<not> fst (snd c) \<longrightarrow> fst (snd (snd (snd c))) = 0 \<and> \<not> fst (snd (snd (snd (snd c))))"
  have eq1: "?P (core s1) \<Longrightarrow> reach_inv s1" for s1
    by (simp add: core_def rate_state_def reach_inv_def)
  have eq2: "reach_inv s1 \<Longrightarrow> ?P (core s1)" for s1
    by (simp add: core_def rate_state_def reach_inv_def)
  have "?P (core (step e ev s))"
  proof (rule step_preserves[where P = ?P])
    fix s1 assume "?P (core s1)"
    then have "reach_inv s1" by (rule eq1)
    then have "reach_inv (process_message_queue e s1)" by (rule pmq_reach)
    then show "?P (core (process_message_queue e s1))" by (rule eq2)
  next
    fix s1 tx ty assume "?P (core s1)"
    then have "reach_inv s1" by (rule eq1)
    then have "reach_inv (snd (add_message_to_queue e tx ty s1))" by (rule amq_reach)
    then show "?P (core (snd (add_message_to_queue e tx ty s1)))" by (rule eq2)
  next
    show "?P (core s)" using a by (rule eq2)
  qed
  then show ?thesis by (rule eq1)
qed

lemma run_reach: "reach_inv s \<Longrightarrow> reach_inv (run evs s)"
  by (induction evs arbitrary: s) (auto simp: step_reach)

lemma init_reach: "reach_inv init_app \<and> length (message_queue init_app) \<le> max_queue_size"
  by (simp add: reach_inv_def init_app_def)


lemma step_send_busy:
  assumes "queue_processing s" "fst (validate_message tx)"
  shows "step e (Send_Chatbox tx ty) s =
           s\<lparr>message_queue :=
               (if length (message_queue s) \<ge> max_queue_size then tl (message_queue s)
                else message_queue s) @ [queued (e, tx, ty)]\<rparr>"
  using assms by (simp add: step_def send_chatbox_message_def amq_busy queued_def)

lemma drop_push:
  assumes "length q \<le> max_queue_size"
  shows "drop (length (((if length q \<ge> max_queue_size then tl q else q) @ [m]) @ l) - max_queue_size)
        (((if length q \<ge> max_queue_size then tl q else q) @ [m]) @ l) =
   drop (length (q @ m # l) - max_queue_size) (q @ m # l)"
proof (cases "length q = max_queue_size")
  case True
  then obtain a q' where q: "q = a # q'" and l': "length q' = 9"
    by (cases q) (auto simp: max_queue_size_def)
  have "drop (length ((q' @ [m]) @ l) - max_queue_size) ((q' @ [m]) @ l) =
        drop (length l) (q' @ m # l)"
    using l' by (simp add: max_queue_size_def)
  moreover have "drop (length (q @ m # l) - max_queue_size) (q @ m # l) = drop (length l) (q' @ m # l)"
    using l' q by (simp add: max_queue_size_def)
  ultimately show ?thesis using True q by simp
next
  case False
  with assms have "length q < max_queue_size" by simp
  then show ?thesis by simp
qed

lemma busy_sends:
  "queue_processing s \<Longrightarrow> length (message_queue s) \<le> max_queue_size \<Longrightarrow>
   \<forall>m\<in>set ms. fst (validate_message (fst (snd m))) \<Longrightarrow>
   message_queue (run (sends ms) s) =
     drop (length (message_queue s @ map queued ms) - max_queue_size) (message_queue s @ map queued ms)"
proof (induction ms arbitrary: s)
  case Nil
  then show ?case by (simp add: sends_def)
next
  case (Cons m ms)
  obtain e tx ty where m: "m = (e, tx, ty)" by (cases m)
  let ?q = "(if length (message_queue s) \<ge> max_queue_size then tl (message_queue s)
                else message_queue s) @ [queued m]"
  let ?s1 = "s\<lparr>message_queue := ?q\<rparr>"
  from Cons.prems m have v: "fst (validate_message tx)" by simp
  have st: "step e (Send_Chatbox tx ty) s = ?s1"
    using step_send_busy[OF Cons.prems(1) v] m by simp
  have p1: "queue_processing ?s1" using Cons.prems(1) by simp
  have l1: "length (message_queue ?s1) \<le> max_queue_size"
    using Cons.prems(2) by (auto simp: max_queue_size_def)
  have v1: "\<forall>m\<in>set ms. fst (validate_message (fst (snd m)))" using Cons.prems(3) by simp
  have "message_queue (run (sends (m # ms)) s) = message_queue (run (sends ms) ?s1)"
    using st m by (simp add: sends_def)
  also have "\<dots> = drop (length (?q @ map queued ms) - max_queue_size) (?q @ map queued ms)"
    using Cons.IH[OF p1 l1 v1] by simp
  also have "\<dots> = drop (length (message_queue s @ queued m # map queued ms) - max_queue_size)
                       (message_queue s @ queued m # map queued ms)"
    using drop_push[OF Cons.prems(2), of "queued m" "map queued ms"] by simp
  finally show ?case by simp
qed

lemma first_send_unblocked:
  "reach_inv s \<Longrightarrow> \<not> queue_processing s \<Longrightarrow> min_interval \<le> t_drain e \<Longrightarrow>
   \<not> drain_blocked e (s\<lparr>message_queue := q\<rparr>)"
  by (auto simp: reach_inv_def drain_blocked_def)

lemma twelve_sends:
  assumes inv: "reach_inv s" and len: "length (message_queue s) \<le> max_queue_size"
      and n: "length ms = 12"
      and ok: "\<forall>m\<in>set ms. fst (validate_message (fst (snd m))) \<and> min_interval \<le> t_drain (fst m)"
  shows "message_queue (run (sends ms) s) = map queued (drop 2 ms)"
proof (cases "queue_processing s")
  case True
  have v: "\<forall>m\<in>set ms. fst (validate_message (fst (snd m)))" using ok by simp
  have "message_queue (run (sends ms) s) =
        drop (length (message_queue s @ map queued ms) - max_queue_size) (message_queue s @ map queued ms)"
    using busy_sends[OF True len v] .
  also have "\<dots> = drop 2 (map queued ms)"
    using n len by (simp add: max_queue_size_def)
  finally show ?thesis by (simp add: drop_map)
next
  case False
  from n obtain m ms' where ms: "ms = m # ms'" and n': "length ms' = 11" by (cases ms) auto
  obtain e tx ty where m: "m = (e, tx, ty)" by (cases m)
  from ok ms m have v: "fst (validate_message tx)" and c: "min_interval \<le> t_drain e" by simp_all
  define q where "q = (if length (message_queue s) \<ge> max_queue_size then tl (message_queue s)
                else message_queue s) @ [queued m]"
  let ?s2 = "s\<lparr>message_queue := q\<rparr>"
  let ?s1 = "process_message_queue e ?s2"
  have st: "step e (Send_Chatbox tx ty) s = ?s1"
    using False v m by (simp add: step_def send_chatbox_message_def amq_valid Let_def q_def queued_def)
  have nb: "\<not> drain_blocked e ?s2" using inv False c by (rule first_send_unblocked)
  have qne: "message_queue ?s2 \<noteq> []" by (simp add: q_def)
  have p1: "queue_processing ?s1" using nb qne by (rule pmq_unblocked_processing)
  have q1: "message_queue ?s1 = tl q" using nb by (simp add: pmq_queue)
  have lq: "length q \<le> max_queue_size" using len by (auto simp: q_def max_queue_size_def)
  have l1: "length (message_queue ?s1) \<le> max_queue_size" using lq q1 by simp
  have v1: "\<forall>m\<in>set ms'. fst (validate_message (fst (snd m)))" using ok ms by simp
  have "message_queue (run (sends ms) s) = message_queue (run (sends ms') ?s1)"
    using st ms m by (simp add: sends_def)
  also have "\<dots> = drop (length (tl q @ map queued ms') - max_queue_size) (tl q @ map queued ms')"
    using busy_sends[OF p1 l1 v1] q1 by simp
  also have "\<dots> = drop 1 (map queued ms')"
  proof -
    from qne obtain a q' where q: "q = a # q'" by (cases q) (auto simp: q_def)
    with lq have "length q' \<le> 9" by (simp add: max_queue_size_def)
    then show ?thesis using n' q by (simp add: max_queue_size_def)
  qed
  finally show ?thesis using ms by (simp add: drop_map drop_Suc)
qed


lemma valid_letter: "97 \<le> n \<Longrightarrow> n \<le> 122 \<Longrightarrow> validate_message [n] = (True, [n])"
  by (auto simp: validate_message_def py_strip_def isspace_def py_split_def py_remove_def
      max_message_length_def)

lemma twelve_eq:
  "twelve = map (\<lambda>n. (env_at vrchat_client 1000, [n], py ''general''))
              [97, 98, 99, 100, 101, 102, 103, 104, 105, 106, 107, 108]"
  by (simp add: twelve_def upt_rec_numeral)

lemma eleven_sent_state:
  "map msg_text (message_queue eleven_sent) = map (\<lambda>n. [n]) [98, 99, 100, 101, 102, 103, 104, 105, 106, 107] \<and>
   queue_processing eleven_sent \<and> osc_calls eleven_sent = [[97]]"
  by (simp add: eleven_sent_def twelve_eq sends_def run_defs amq_valid valid_letter)


section \<open>The unreachable final branch of the drain\<close>

text \<open>
  Claim C8. \<open>_process_message_queue\<close> never takes its final \<open>else\<close> branch, the one that
  clears the processing flag: the entry guard has returned when the queue is empty and
  nothing before the test at line 177 removes an element. So whenever the drain has
  popped a message and attempted its send, the flag is set on return, and it stays set
  through every later call of the event loop.
\<close>

theorem else_branch_unreachable:
  "fst (process_message_queue_path e s) \<noteq> Else_Branch \<and>
   (fst (process_message_queue_path e s) = Sent_Next \<longrightarrow>
      (\<forall>evs. queue_processing (run evs (process_message_queue e s))))"
  using path_not_else[of e s] path_sent_processing[of e s] run_processing
  by (simp add: process_message_queue_def)

theorem else_branch_unreachable_witness:
  "fst (process_message_queue_path (env_at vrchat_client 1000) one_queued) = Sent_Next \<and>
   queue_processing (run [(env_at vrchat_client 1001.5, Timer_Fires 0)]
      (process_message_queue (env_at vrchat_client 1000) one_queued))"
proof -
  have a: "fst (process_message_queue_path (env_at vrchat_client 1000) one_queued) = Sent_Next"
    by (simp add: one_queued_def model_defs)
  with else_branch_unreachable[of "env_at vrchat_client 1000" one_queued] show ?thesis by blast
qed



section \<open>A message of null characters\<close>

text \<open>
  Claim C10. The input consisting of one null character is not empty and not whitespace,
  so \<open>validate_message\<close> accepts it, and the sanitized text is the empty string since
  the null is removed after the emptiness test. \<open>add_message_to_queue\<close> returns true
  for it; while a drain cycle is in flight the message with the empty text is appended
  to the queue, and in a fresh application it is handed to the OSC client at once.
\<close>

theorem null_only_message_is_queued:
  "validate_message [0x00] = (True, []) \<and>
   fst (add_message_to_queue e [0x00] ty s) \<and>
   (queue_processing s \<longrightarrow>
      message_queue (snd (add_message_to_queue e [0x00] ty s)) =
        (if length (message_queue s) \<ge> max_queue_size then tl (message_queue s) else message_queue s) @
        [\<lparr>msg_text = [], msg_type = ty, msg_timestamp = t_enqueue e\<rparr>]) \<and>
   osc_calls (snd (add_message_to_queue (env_at vrchat_client 1000) [0x00] (py ''general'') init_app)) = [[]]"
proof -
  have v: "validate_message [0x00] = (True, [])"
    by (simp add: validate_message_def py_strip_def py_split_def py_remove_def max_message_length_def)
  have a: "fst (add_message_to_queue e [0x00] ty s)" by (simp add: amq_fst v)
  have b: "queue_processing s \<Longrightarrow>
      message_queue (snd (add_message_to_queue e [0x00] ty s)) =
        (if length (message_queue s) \<ge> max_queue_size then tl (message_queue s) else message_queue s) @
        [\<lparr>msg_text = [], msg_type = ty, msg_timestamp = t_enqueue e\<rparr>]"
    by (simp add: amq_busy v)
  have c: "osc_calls (snd (add_message_to_queue (env_at vrchat_client 1000) [0x00] (py ''general'') init_app)) = [[]]"
    by (simp add: model_defs)
  from v a b c show ?thesis by blast
qed

theorem null_only_message_is_queued_witness:
  "queue_processing busy_app \<and>
   map msg_text (message_queue (snd (add_message_to_queue (env_at vrchat_client 1000) [0x00] (py ''general'') busy_app))) = [[]]"
proof -
  have p: "queue_processing busy_app" by (simp add: busy_app_def model_defs)
  have q: "message_queue busy_app = []" by (simp add: busy_app_def model_defs)
  from null_only_message_is_queued[of "env_at vrchat_client 1000" "py ''general''" busy_app] p
  have "message_queue (snd (add_message_to_queue (env_at vrchat_client 1000) [0x00] (py ''general'') busy_app)) =
        (if length (message_queue busy_app) \<ge> max_queue_size then tl (message_queue busy_app) else message_queue busy_app) @
        [\<lparr>msg_text = [], msg_type = py ''general'', msg_timestamp = t_enqueue (env_at vrchat_client 1000)\<rparr>]"
    by blast
  with p q show ?thesis by (simp add: max_queue_size_def)
qed



section \<open>Validation and sanitization\<close>

text \<open>
  What \<open>validate_message\<close> returns, for every input. It fails exactly when the input is
  empty or all whitespace; otherwise the words of the input, its maximal runs of
  non-whitespace characters, are joined by single spaces, cut to 141 characters and an
  ellipsis when the joined text exceeds 144, and the null characters are removed last.
  The result has no null and no carriage return and at most 144 characters.
\<close>

lemma validate_message_result:
  "(\<not> fst (validate_message t) \<longleftrightarrow> t = [] \<or> py_strip t = []) \<and>
   (py_strip t = [] \<longleftrightarrow> (\<forall>c\<in>set t. isspace c)) \<and>
   (\<forall>w\<in>set (py_split t). w \<noteq> [] \<and> (\<forall>c\<in>set w. \<not> isspace c)) \<and>
   (\<forall>u c v. isspace c \<longrightarrow> py_split (u @ c # v) = py_split u @ py_split v) \<and>
   (\<forall>w. w \<noteq> [] \<and> (\<forall>c\<in>set w. \<not> isspace c) \<longrightarrow> py_split w = [w]) \<and>
   (fst (validate_message t) \<and> length (py_join (py '' '') (py_split t)) \<le> 144 \<longrightarrow>
      snd (validate_message t) = py_join (py '' '') (map (py_remove 0x00) (py_split t))) \<and>
   (length (py_join (py '' '') (py_split t)) > 144 \<longrightarrow>
      fst (validate_message t) \<and>
      snd (validate_message t) =
        py_remove 0x00 (take 141 (py_join (py '' '') (py_split t))) @ py ''...'' \<and>
      suffix (py ''...'') (snd (validate_message t))) \<and>
   0x00 \<notin> set (snd (validate_message t)) \<and> 0x0D \<notin> set (snd (validate_message t)) \<and>
   (\<forall>c\<in>set (snd (validate_message t)). fst (validate_message t) \<and> isspace c \<longrightarrow> c = 0x20) \<and>
   length (snd (validate_message t)) \<le> 144 \<and>
   validate_message (py '' a   b  '' @ [0x0A, 0x00] @ py ''c'' @ [0x0D] @ py '' '') = (True, py ''a b c'')"
proof -
  have p1: "\<not> fst (validate_message t) \<longleftrightarrow> t = [] \<or> py_strip t = []"
    by (simp add: validate_message_def Let_def)
  have p2: "py_strip t = [] \<longleftrightarrow> (\<forall>c\<in>set t. isspace c)" by (rule py_strip_Nil_iff)
  have p3: "\<forall>w\<in>set (py_split t). w \<noteq> [] \<and> (\<forall>c\<in>set w. \<not> isspace c)"
    using py_split_words[of _ t] by blast
  have p4: "\<forall>u c v. isspace c \<longrightarrow> py_split (u @ c # v) = py_split u @ py_split v"
    by (simp add: py_split_append_space)
  have p5: "\<forall>w. w \<noteq> [] \<and> (\<forall>c\<in>set w. \<not> isspace c) \<longrightarrow> py_split w = [w]"
    by (simp add: py_split_word)
  have p6: "fst (validate_message t) \<and> length (py_join (py '' '') (py_split t)) \<le> 144 \<longrightarrow>
      snd (validate_message t) = py_join (py '' '') (map (py_remove 0x00) (py_split t))"
    using validate_message_short[of t] validate_message_ok[of t] by auto
  have p7: "length (py_join (py '' '') (py_split t)) > 144 \<longrightarrow>
      fst (validate_message t) \<and>
      snd (validate_message t) =
        py_remove 0x00 (take 141 (py_join (py '' '') (py_split t))) @ py ''...'' \<and>
      suffix (py ''...'') (snd (validate_message t))"
    using validate_message_long2[of t] validate_message_long_ok[of t]
    by (auto simp: suffix_def)
  have p8: "0x00 \<notin> set (snd (validate_message t))" and p8': "0x0D \<notin> set (snd (validate_message t))"
    using validate_message_no_nul_cr[of t] by blast+
  have p9: "\<forall>c\<in>set (snd (validate_message t)). fst (validate_message t) \<and> isspace c \<longrightarrow> c = 0x20"
    using validate_message_spaces[of _ t] by blast
  have p10: "length (snd (validate_message t)) \<le> 144" by (rule validate_message_length)
  have p11: "validate_message (py '' a   b  '' @ [0x0A, 0x00] @ py ''c'' @ [0x0D] @ py '' '') = (True, py ''a b c'')"
    by (simp add: validate_message_def py_def py_strip_def isspace_def py_split_def py_remove_def
        max_message_length_def)
  show ?thesis by (intro conjI p1 p2 p3 p4 p5 p6 p7 p8 p8' p9 p10 p11)
qed

text \<open>
  Claim C5 does not hold of the code. The whitespace is collapsed at line 115, under
  the comment "Remove excessive whitespace and newlines", and the null characters are
  removed afterwards, at line 122: a null standing alone between two spaces leaves the
  two spaces side by side, and one at the start of the text leaves a leading space.
  The other clauses of the claim hold.
\<close>

theorem null_removal_leaves_adjacent_spaces:
  "validate_message (py ''a '' @ [0x00] @ py '' b'') = (True, py ''a  b'') \<and>
   py_in (py ''  '') (snd (validate_message (py ''a '' @ [0x00] @ py '' b''))) \<and>
   validate_message ([0x00] @ py '' a'') = (True, py '' a'') \<and>
   validate_message (py '' a   b  '' @ [0x0A, 0x00] @ py ''c'' @ [0x0D] @ py '' '') =
     (True, py ''a b c'')"
  by (simp add: validate_message_def py_def py_strip_def isspace_def py_split_def py_remove_def
      max_message_length_def)


section \<open>The exceptions of the OSC client\<close>





section \<open>The spam penalty\<close>

text \<open>
  Claim C3. If the send raises with a diagnostic whose lower-cased form contains
  \<open>spam\<close>, \<open>_send_message_direct\<close> returns false with the timeout flag set and the
  deadline exactly 30 seconds after the clock read in the handler; the drain has popped
  the message and does not put it back. While the flag is set and the clock of every
  call is before the deadline, no call of the event loop hands a message to the client,
  and flag and deadline stay as they are.
\<close>

theorem spam_rejection_starts_penalty:
  "(osc_lookup e = Return client \<and> client tx = Raise d \<and> py_in (py ''spam'') (py_lower d) \<longrightarrow>
      \<not> fst (send_message_direct e tx s) \<and>
      chatbox_timeout (snd (send_message_direct e tx s)) \<and>
      chatbox_timeout_until (snd (send_message_direct e tx s)) = t_send e + 30 \<and>
      message_queue (snd (send_message_direct e tx s)) = message_queue s) \<and>
   (fst (process_message_queue_path e s) = Sent_Next \<and> osc_lookup e = Return client \<and>
    client (msg_text (hd (message_queue s))) = Raise d \<and> py_in (py ''spam'') (py_lower d) \<longrightarrow>
      chatbox_timeout (process_message_queue e s) \<and>
      chatbox_timeout_until (process_message_queue e s) = t_send e + 30 \<and>
      message_queue (process_message_queue e s) = tl (message_queue s)) \<and>
   (chatbox_timeout s \<and> (\<forall>x\<in>set evs. t_drain (fst x) < chatbox_timeout_until s) \<longrightarrow>
      osc_calls (run evs s) = osc_calls s \<and> chatbox_timeout (run evs s) \<and>
      chatbox_timeout_until (run evs s) = chatbox_timeout_until s)"
proof -
  have a: "osc_lookup e = Return client \<and> client tx = Raise d \<and> py_in (py ''spam'') (py_lower d) \<longrightarrow>
      \<not> fst (send_message_direct e tx s) \<and>
      chatbox_timeout (snd (send_message_direct e tx s)) \<and>
      chatbox_timeout_until (snd (send_message_direct e tx s)) = t_send e + 30 \<and>
      message_queue (snd (send_message_direct e tx s)) = message_queue s" for tx s
    by (auto simp: send_message_direct_def Let_def is_spam_diagnostic_def)
  have b: "fst (process_message_queue_path e s) = Sent_Next \<and> osc_lookup e = Return client \<and>
    client (msg_text (hd (message_queue s))) = Raise d \<and> py_in (py ''spam'') (py_lower d) \<longrightarrow>
      chatbox_timeout (process_message_queue e s) \<and>
      chatbox_timeout_until (process_message_queue e s) = t_send e + 30 \<and>
      message_queue (process_message_queue e s) = tl (message_queue s)"
  proof (intro impI, elim conjE)
    assume p: "fst (process_message_queue_path e s) = Sent_Next" and l: "osc_lookup e = Return client"
      and c: "client (msg_text (hd (message_queue s))) = Raise d" and sp: "py_in (py ''spam'') (py_lower d)"
    from p have nb: "\<not> drain_blocked e s" and ne: "message_queue s \<noteq> []" by (simp_all add: path_sent_iff)
    then obtain m rest where q: "message_queue s = m # rest" by (cases "message_queue s") auto
    let ?s2 = "s\<lparr>queue_processing := True, message_queue := rest\<rparr>"
    from a[of "msg_text m" ?s2] l c sp q
    have k: "\<not> fst (send_message_direct e (msg_text m) ?s2)"
      "chatbox_timeout (snd (send_message_direct e (msg_text m) ?s2))"
      "chatbox_timeout_until (snd (send_message_direct e (msg_text m) ?s2)) = t_send e + 30"
      "message_queue (snd (send_message_direct e (msg_text m) ?s2)) = rest"
      by simp_all
    show "chatbox_timeout (process_message_queue e s) \<and>
      chatbox_timeout_until (process_message_queue e s) = t_send e + 30 \<and>
      message_queue (process_message_queue e s) = tl (message_queue s)"
      using nb q k
      by (simp add: process_message_queue_def process_message_queue_path_def drain_blocked_def Let_def
          split_beta root_after_def)
  qed
  have c: "chatbox_timeout s \<and> (\<forall>x\<in>set evs. t_drain (fst x) < chatbox_timeout_until s) \<longrightarrow>
      osc_calls (run evs s) = osc_calls s \<and> chatbox_timeout (run evs s) \<and>
      chatbox_timeout_until (run evs s) = chatbox_timeout_until s"
  proof (intro impI, elim conjE)
    assume t: "chatbox_timeout s" and w: "\<forall>x\<in>set evs. t_drain (fst x) < chatbox_timeout_until s"
    then have "\<forall>x\<in>set evs. drain_blocked (fst x) s" by (simp add: drain_blocked_def)
    then have "rate_state (run evs s) = rate_state s" by (rule run_blocked)
    with t show "osc_calls (run evs s) = osc_calls s \<and> chatbox_timeout (run evs s) \<and>
      chatbox_timeout_until (run evs s) = chatbox_timeout_until s"
      by (simp add: rate_state_def)
  qed
  from a[of tx s] b c show ?thesis by (intro conjI)
qed

theorem spam_rejection_starts_penalty_witness:
  "fst (process_message_queue_path (env_at spam_client 1000) one_queued) = Sent_Next \<and>
   py_in (py ''spam'') (py_lower (py ''Timed out for spam, try again later'')) \<and>
   chatbox_timeout spam_rejected \<and> chatbox_timeout_until spam_rejected = 1030 \<and>
   message_queue spam_rejected = [] \<and>
   osc_calls (run [(env_at vrchat_client 1001, Send_Chatbox (py ''World'') (py ''general'')),
                   (env_at vrchat_client 1001.5, Timer_Fires 0),
                   (env_at vrchat_client 1029, Send_Chatbox (py ''Again'') (py ''general''))]
                spam_rejected) = osc_calls spam_rejected"
proof -
  let ?e = "env_at spam_client 1000"
  let ?client = "\<lambda>m::pystr. (Raise (py ''Timed out for spam, try again later'') :: unit raises)"
  let ?d = "py ''Timed out for spam, try again later''"
  let ?evs = "[(env_at vrchat_client 1001, Send_Chatbox (py ''World'') (py ''general'')),
               (env_at vrchat_client 1001.5, Timer_Fires 0),
               (env_at vrchat_client 1029, Send_Chatbox (py ''Again'') (py ''general''))]"
  have h1: "fst (process_message_queue_path ?e one_queued) = Sent_Next"
    by (simp add: one_queued_def model_defs)
  have h2: "osc_lookup ?e = Return ?client" by (simp add: env_at_def spam_client_def)
  have h3: "?client (msg_text (hd (message_queue one_queued))) = Raise ?d" by simp
  have h4: "py_in (py ''spam'') (py_lower ?d)" by (simp add: py_def py_lower_def)
  have q: "message_queue one_queued = [\<lparr>msg_text = py ''Hello'', msg_type = py ''general'', msg_timestamp = 1000\<rparr>]"
    by (simp add: one_queued_def init_app_def)
  have ts: "t_send ?e = 1000" by (simp add: env_at_def)
  note T = spam_rejection_starts_penalty[where e = ?e and client = ?client and d = ?d and s = one_queued]
  from T h1 h2 h3 h4
  have r: "chatbox_timeout (process_message_queue ?e one_queued) \<and>
      chatbox_timeout_until (process_message_queue ?e one_queued) = t_send ?e + 30 \<and>
      message_queue (process_message_queue ?e one_queued) = tl (message_queue one_queued)"
    by blast
  then have r': "chatbox_timeout spam_rejected" "chatbox_timeout_until spam_rejected = 1030"
    "message_queue spam_rejected = []"
    by (simp_all add: spam_rejected_def ts q)
  have w: "\<forall>x\<in>set ?evs. t_drain (fst x) < chatbox_timeout_until spam_rejected"
    by (simp add: r' env_at_def)
  from spam_rejection_starts_penalty[where s = spam_rejected and evs = ?evs] r'(1) w
  have "osc_calls (run ?evs spam_rejected) = osc_calls spam_rejected" by blast
  with h1 h4 r' show ?thesis by blast
qed


section \<open>The timeout flag after the penalty window\<close>



section \<open>The drain after the first send\<close>

text \<open>
  Claim C1 does not hold of the code. In the scenario of the spec, \<open>Hello\<close> is handed
  to the client at clock 1000 and the drain is scheduled 1500 ms later; but the send
  branch returns with the processing flag set, so the scheduled drain returns at its
  entry guard: \<open>World\<close> stays in the queue, no further drain is scheduled, and no later
  call of the event loop hands another message to the client.
\<close>

theorem world_is_never_sent:
  "osc_calls hello_world_run = [py ''Hello''] \<and>
   map msg_text (message_queue hello_world_run) = [py ''World''] \<and>
   last_chatbox_sent hello_world_run = 1000 \<and>
   after_pending hello_world_run = [] \<and>
   (\<forall>evs. osc_calls (run evs hello_world_run) = [py ''Hello''])"
proof -
  have a: "osc_calls hello_world_run = [py ''Hello''] \<and>
   map msg_text (message_queue hello_world_run) = [py ''World''] \<and>
   last_chatbox_sent hello_world_run = 1000 \<and>
   after_pending hello_world_run = [] \<and> queue_processing hello_world_run"
    by (simp add: hello_world_run_def model_defs)
  then have "rate_state (run evs hello_world_run) = rate_state hello_world_run" for evs
    using run_busy_rate by blast
  then have "\<forall>evs. osc_calls (run evs hello_world_run) = osc_calls hello_world_run"
    by (simp add: rate_state_def)
  with a show ?thesis by simp
qed


section \<open>The processing flag when the queue runs empty\<close>

text \<open>
  Claim C2 does not hold of the code. The drain pops the only message of \<open>one_queued\<close>
  and sends it; the queue is then empty and the flag is still set (\<open>busy_app\<close> is the
  same state reached through \<open>add_message_to_queue\<close>). An enqueue ten seconds later
  appends its message and starts no drain: nothing is sent and no timer is added.
\<close>

theorem flag_stays_set_after_last_pop:
  "message_queue one_queued \<noteq> [] \<and> \<not> queue_processing one_queued \<and>
   fst (process_message_queue_path (env_at vrchat_client 1000) one_queued) = Sent_Next \<and>
   message_queue busy_app = [] \<and> queue_processing busy_app \<and>
   osc_calls busy_app = [py ''Hello''] \<and>
   osc_calls (snd (add_message_to_queue (env_at vrchat_client 1010) (py ''World'') (py ''general'') busy_app))
     = [py ''Hello''] \<and>
   map msg_text (message_queue
     (snd (add_message_to_queue (env_at vrchat_client 1010) (py ''World'') (py ''general'') busy_app)))
     = [py ''World''] \<and>
   after_pending (snd (add_message_to_queue (env_at vrchat_client 1010) (py ''World'') (py ''general'') busy_app))
     = after_pending busy_app"
  by (simp add: one_queued_def busy_app_def model_defs)


section \<open>Two animation cadences\<close>

text \<open>
  Claim C7 does not hold of the code. \<open>start_music_animation\<close> cancels nothing: the
  animation ticks pending before the call are pending after it. The song poller calls
  \<open>stop_music_animation\<close> first, the resume timer of \<open>on_stt_text\<close> does not. After
  two transcripts one second apart both resume timers start a session, and two ticks
  (identifiers 3 and 4) are pending at once; \<open>stop_music_animation\<close> cancels only the
  one it remembers; when both fire, each enqueues a frame and schedules its successor.
\<close>

theorem resume_starts_second_cadence:
  "pending_animation_ticks stt_twice_run = [3, 4] \<and>
   music_anim_after_id stt_twice_run = Some 4 \<and>
   pending_animation_ticks (stop_music_animation stt_twice_run) = [3] \<and>
   pending_animation_ticks stt_twice_later = [5, 6] \<and>
   length (message_queue stt_twice_later) = length (message_queue stt_twice_run) + 2 \<and>
   (\<forall>e t a s. prefix (pending_animation_ticks s)
                 (pending_animation_ticks (start_music_animation e t a s)))"
proof -
  have a: "pending_animation_ticks stt_twice_run = [3, 4]" "music_anim_after_id stt_twice_run = Some 4"
    using stt_twice_state by (simp_all add: pending_animation_ticks_def)
  have b: "pending_animation_ticks (stop_music_animation stt_twice_run) = [3]"
    using stt_twice_state
    by (simp add: stop_music_animation_def Let_def root_after_cancel_def pending_animation_ticks_def)
  have c: "pending_animation_ticks stt_twice_later = [5, 6] \<and>
           length (message_queue stt_twice_later) = 5"
    by (simp add: stt_twice_later_def stt_twice_run_def run_defs amq_valid animation_text_valid
        valid_hello valid_hello_world py_def py_strip_def isspace_def)
  have d: "\<forall>e t a s. prefix (pending_animation_ticks s)
                 (pending_animation_ticks (start_music_animation e t a s))"
    using start_ticks by (metis prefixI)
  from a b c d stt_twice_state show ?thesis by simp
qed



section \<open>Capacity and eviction\<close>

text \<open>
  Claim C4. Whatever calls the event loop makes, a queue of at most ten entries stays at
  most ten entries long, and the fresh application starts with none.
  \<open>add_message_to_queue\<close> returns exactly the verdict of the validation, so a valid
  message is never refused for lack of room. When a valid message arrives at a full
  queue the front entry is dropped and the message is appended at the back (and, when
  the drain is free to send, the next entry is popped for sending in the same call).
  Twelve valid messages enqueued in a row, in any state the application reaches from
  its start with clocks reading at least the minimum interval, leave exactly the last
  ten in the queue, in enqueue order.
\<close>

theorem queue_holds_at_most_ten:
  "(length (message_queue s) \<le> max_queue_size \<longrightarrow>
      length (message_queue (run evs s)) \<le> max_queue_size) \<and>
   length (message_queue (run evs init_app)) \<le> max_queue_size \<and> max_queue_size = 10 \<and>
   fst (add_message_to_queue e tx ty s) = fst (validate_message tx) \<and>
   (fst (validate_message tx) \<and> length (message_queue s) = max_queue_size \<longrightarrow>
      message_queue (snd (add_message_to_queue e tx ty s)) =
        (if drain_blocked e s then tl (message_queue s) @ [queued (e, tx, ty)]
         else tl (tl (message_queue s)) @ [queued (e, tx, ty)])) \<and>
   (length ms = 12 \<and>
    (\<forall>m\<in>set ms. fst (validate_message (fst (snd m))) \<and> min_interval \<le> t_drain (fst m)) \<longrightarrow>
      message_queue (run (sends ms) (run evs init_app)) = map queued (drop 2 ms))"
proof -
  have a: "length (message_queue s) \<le> max_queue_size \<longrightarrow>
      length (message_queue (run evs s)) \<le> max_queue_size"
    by (simp add: run_len)
  have b: "length (message_queue (run evs init_app)) \<le> max_queue_size"
    using init_reach by (simp add: run_len)
  have c: "max_queue_size = 10" by (simp add: max_queue_size_def)
  have d: "fst (add_message_to_queue e tx ty s) = fst (validate_message tx)" by (rule amq_fst)
  have f: "fst (validate_message tx) \<and> length (message_queue s) = max_queue_size \<longrightarrow>
      message_queue (snd (add_message_to_queue e tx ty s)) =
        (if drain_blocked e s then tl (message_queue s) @ [queued (e, tx, ty)]
         else tl (tl (message_queue s)) @ [queued (e, tx, ty)])"
  proof (intro impI, elim conjE)
    assume v: "fst (validate_message tx)" and l: "length (message_queue s) = max_queue_size"
    let ?q = "tl (message_queue s) @ [queued (e, tx, ty)]"
    from l obtain x q' where q: "message_queue s = x # q'" and l': "length q' = 9"
      by (cases "message_queue s") (auto simp: max_queue_size_def)
    have bl: "drain_blocked e (s\<lparr>message_queue := ?q\<rparr>) = drain_blocked e s"
      by (simp add: drain_blocked_def)
    have pb: "queue_processing s \<Longrightarrow> drain_blocked e s" by (simp add: drain_blocked_def)
    have t: "tl ?q = tl (tl (message_queue s)) @ [queued (e, tx, ty)]"
      using q l' by (cases q') auto
    have q2: "message_queue s \<noteq> [] \<and> max_queue_size \<le> length (message_queue s)"
      using l q by simp
    have r: "snd (add_message_to_queue e tx ty s) =
               (if \<not> queue_processing s then process_message_queue e (s\<lparr>message_queue := ?q\<rparr>)
                else s\<lparr>message_queue := ?q\<rparr>)"
      using q2 by (simp add: amq_valid[OF v] Let_def queued_def)
    show "message_queue (snd (add_message_to_queue e tx ty s)) =
        (if drain_blocked e s then tl (message_queue s) @ [queued (e, tx, ty)]
         else tl (tl (message_queue s)) @ [queued (e, tx, ty)])"
    proof (cases "drain_blocked e s")
      case True
      then have "message_queue (process_message_queue e (s\<lparr>message_queue := ?q\<rparr>)) = ?q"
        using bl by (simp only: pmq_queue) simp
      with True show ?thesis by (simp only: r) simp
    next
      case False
      then have np: "\<not> queue_processing s" using pb by blast
      from False have "message_queue (process_message_queue e (s\<lparr>message_queue := ?q\<rparr>)) = tl ?q"
        using bl by (simp only: pmq_queue) simp
      with False np t show ?thesis by (simp only: r) simp
    qed
  qed
  have g: "length ms = 12 \<and>
    (\<forall>m\<in>set ms. fst (validate_message (fst (snd m))) \<and> min_interval \<le> t_drain (fst m)) \<longrightarrow>
      message_queue (run (sends ms) (run evs init_app)) = map queued (drop 2 ms)"
  proof (intro impI, elim conjE)
    assume n: "length ms = 12"
      and ok: "\<forall>m\<in>set ms. fst (validate_message (fst (snd m))) \<and> min_interval \<le> t_drain (fst m)"
    have i: "reach_inv (run evs init_app)" using init_reach by (simp add: run_reach)
    show "message_queue (run (sends ms) (run evs init_app)) = map queued (drop 2 ms)"
      using i b n ok by (rule twelve_sends)
  qed
  show ?thesis by (intro conjI a b c d f g)
qed

theorem queue_holds_at_most_ten_witness:
  "length twelve = 12 \<and>
   map msg_text (message_queue (run (sends twelve) init_app)) =
     map (\<lambda>n. [n]) [99, 100, 101, 102, 103, 104, 105, 106, 107, 108] \<and>
   length (message_queue eleven_sent) = max_queue_size \<and>
   map msg_text (message_queue (snd (add_message_to_queue (env_at vrchat_client 1000) [108]
                                       (py ''general'') eleven_sent))) =
     map (\<lambda>n. [n]) [99, 100, 101, 102, 103, 104, 105, 106, 107, 108] \<and>
   length (message_queue (run (sends twelve) eleven_sent)) \<le> max_queue_size"
proof -
  let ?e = "env_at vrchat_client 1000"
  have n: "length twelve = 12" by (simp add: twelve_eq)
  have ok: "\<forall>m\<in>set twelve. fst (validate_message (fst (snd m))) \<and> min_interval \<le> t_drain (fst m)"
    by (simp add: twelve_eq valid_letter env_at_def min_interval_def)
  note T1 = queue_holds_at_most_ten[where evs = "[]" and ms = twelve]
  from T1 n ok have "message_queue (run (sends twelve) (run [] init_app)) = map queued (drop 2 twelve)"
    by blast
  then have r1: "map msg_text (message_queue (run (sends twelve) init_app)) =
     map (\<lambda>n. [n]) [99, 100, 101, 102, 103, 104, 105, 106, 107, 108]"
    by (simp add: twelve_eq queued_def valid_letter)
  have l: "length (message_queue eleven_sent) = max_queue_size"
  proof -
    have "length (map msg_text (message_queue eleven_sent)) = 10"
      using eleven_sent_state by (simp only: ) simp
    then show ?thesis by (simp add: max_queue_size_def)
  qed
  have v: "fst (validate_message [108])" by (simp add: valid_letter)
  have bl: "drain_blocked ?e eleven_sent" using eleven_sent_state by (simp add: drain_blocked_def)
  note T2 = queue_holds_at_most_ten[where s = eleven_sent and e = ?e and tx = "[108]"
      and ty = "py ''general''" and evs = "sends twelve"]
  from T2 v l bl have "message_queue (snd (add_message_to_queue ?e [108] (py ''general'') eleven_sent)) =
      tl (message_queue eleven_sent) @ [queued (?e, [108], py ''general'')]"
    by presburger
  then have r2: "map msg_text (message_queue (snd (add_message_to_queue ?e [108] (py ''general'') eleven_sent))) =
     map (\<lambda>n. [n]) [99, 100, 101, 102, 103, 104, 105, 106, 107, 108]"
    using eleven_sent_state by (simp add: map_tl queued_def valid_letter)
  from T2 l have r3: "length (message_queue (run (sends twelve) eleven_sent)) \<le> max_queue_size"
    by simp
  from n r1 l r2 r3 show ?thesis by blast
qed


end
